theory Spec2Isabelle
  imports Main
begin

section \<open>The LM Studio embeddings node\<close>

text \<open>
  A shallow embedding of \<^verbatim>\<open>src/nodes/LMStudioEmbeddings.node.ts\<close> and of
  \<^verbatim>\<open>src/credentials/LMStudioApi.credentials.ts\<close>.

  Everything outside the repository is a parameter of the model:
  \<^item> the embeddings endpoint behind \<^verbatim>\<open>embeddings.embeddingWithRetry\<close> is a state machine
    \<open>srv\<close> over an arbitrary state type, so that the outcome of a request may depend on
    every request made before it;
  \<^item> the constructor \<^verbatim>\<open>new OpenAIEmbeddings({...})\<close> is a function \<open>new_client\<close> of
    the fields it is given, which either throws or returns;
  \<^item> \<^verbatim>\<open>fetch\<close> is a function from the request to its outcome.

  Strings are \<open>string\<close>; a document that may be \<^verbatim>\<open>null\<close> or \<^verbatim>\<open>undefined\<close> is a
  \<open>string option\<close>. The batch size is an \<open>int\<close>: the loop is modelled for whole-number
  batch sizes, of either sign. Console output is not modelled.
\<close>

subsection \<open>JavaScript values\<close>

text \<open>A thrown value: an \<^verbatim>\<open>Error\<close> with its message, or anything else.\<close>

datatype thrown = JsError string | NonError

text \<open>\<^verbatim>\<open>error instanceof Error ? error.message : 'Unknown error'\<close>\<close>

fun message :: "thrown \<Rightarrow> string" where
  "message (JsError m) = m"
| "message NonError = ''Unknown error''"

type_synonym doc = "string option"

text \<open>
  The characters that \<^verbatim>\<open>String.prototype.trim\<close> strips, among the code units below 256:
  tab, line feed, vertical tab, form feed, carriage return, space, no-break space.
\<close>

definition js_whitespace :: "char \<Rightarrow> bool" where
  "js_whitespace c \<longleftrightarrow> of_char c \<in> {9, 10, 11, 12, 13, 32, 160 :: nat}"

definition trim :: "string \<Rightarrow> string" where
  "trim s = rev (dropWhile js_whitespace (rev (dropWhile js_whitespace s)))"

text \<open>
  \<^verbatim>\<open>doc && doc.trim()\<close>: the text of the document when that expression is truthy,
  \<open>None\<close> when the document is null, empty or whitespace only.
\<close>

definition valid_text :: "doc \<Rightarrow> string option" where
  "valid_text doc =
     (case doc of
        None \<Rightarrow> None
      | Some s \<Rightarrow> if s \<noteq> [] \<and> trim s \<noteq> [] then Some s else None)"

text \<open>\<^verbatim>\<open>Array.prototype.slice(start, end)\<close> on whole-number arguments.\<close>

definition slice :: "'a list \<Rightarrow> int \<Rightarrow> int \<Rightarrow> 'a list" where
  "slice xs start end' =
     (let len = int (length xs);
          k = (if start < 0 then max (len + start) 0 else min start len);
          final = (if end' < 0 then max (len + end') 0 else min end' len)
      in take (nat (final - k)) (drop (nat k) xs))"

subsection \<open>Requests and responses of the embeddings endpoint\<close>

datatype encoding_format = Float | Base64

text \<open>
  An embedding is an array of numbers or, in base64 format, a string; the numbers are
  passed through untouched, so their type is a parameter. \<open>Vec []\<close> is the empty array
  that stands in for a missing embedding.
\<close>

datatype 'n embedding = Vec "'n list" | B64 string

datatype input = Single string | Many "string list"

record request =
  model :: string
  input :: input
  encoding_format :: encoding_format

text \<open>
  The response body \<^verbatim>\<open>{data: [{embedding, ...}, ...]}\<close>. Only \<^verbatim>\<open>data[k].embedding\<close> is
  read. A body without \<^verbatim>\<open>data\<close> behaves as one with an empty array: the first access
  \<^verbatim>\<open>data[k].embedding\<close> throws a TypeError in both cases.
\<close>

record 'n item =
  embedding :: "'n embedding"

record 'n response =
  data :: "'n item list"

type_synonym 'n outcome = "thrown + 'n response"

type_synonym ('s, 'n) server = "'s \<Rightarrow> request \<Rightarrow> 'n outcome \<times> 's"

text \<open>
  The world threaded through a call: the state of the endpoint, the exchanges made so
  far (request and outcome, oldest first), and the chunks the loop has taken so far.
\<close>

record ('s, 'n) world =
  server_state :: 's
  exchanges :: "(request \<times> 'n outcome) list"
  batches :: "doc list list"

definition embeddingWithRetry ::
  "('s, 'n) server \<Rightarrow> request \<Rightarrow> ('s, 'n) world \<Rightarrow> 'n outcome \<times> ('s, 'n) world" where
  "embeddingWithRetry srv req w =
     (let (out, s') = srv (server_state w) req
      in (out, w\<lparr>server_state := s', exchanges := exchanges w @ [(req, out)]\<rparr>))"

subsection \<open>Credentials and the provider returned by supplyData\<close>

text \<open>The credential \<^verbatim>\<open>lmStudioApi\<close>; the API key may be absent or empty.\<close>

record credentials =
  baseUrl :: string
  apiKey :: "string option"

text \<open>
  The variables the provider's two closures capture: the credentials, the base URL
  after normalisation, the model, the encoding format and the batch size.
\<close>

record provider =
  p_credentials :: credentials
  p_baseUrl :: string
  p_model :: string
  encodingFormat :: encoding_format
  batchSize :: int

text \<open>The fields handed to \<^verbatim>\<open>new OpenAIEmbeddings\<close>.\<close>

record client_fields =
  baseURL :: string
  cf_apiKey :: "string option"
  cf_model :: string

definition client_fields_of :: "provider \<Rightarrow> client_fields" where
  "client_fields_of p =
     \<lparr>baseURL = p_baseUrl p, cf_apiKey = apiKey (p_credentials p), cf_model = p_model p\<rparr>"

definition mk_request :: "provider \<Rightarrow> input \<Rightarrow> request" where
  "mk_request p inp = \<lparr>model = p_model p, input = inp, encoding_format = encodingFormat p\<rparr>"

datatype provider_error =
    TextEmpty
  | NoDocuments
  | EmbeddingError string
  | DocumentEmbeddingsError string

text \<open>The message of the \<^verbatim>\<open>Error\<close> each one stands for.\<close>

fun error_text :: "provider_error \<Rightarrow> string" where
  "error_text TextEmpty = ''Text content is empty''"
| "error_text NoDocuments = ''No documents provided''"
| "error_text (EmbeddingError m) = ''Error generating embedding: '' @ m"
| "error_text (DocumentEmbeddingsError m) = ''Error generating document embeddings: '' @ m"

subsection \<open>embedQuery\<close>

definition embedQuery ::
  "provider \<Rightarrow> (client_fields \<Rightarrow> thrown option) \<Rightarrow> ('s, 'n) server \<Rightarrow> doc \<Rightarrow>
   ('s, 'n) world \<Rightarrow> (provider_error + 'n embedding) \<times> ('s, 'n) world" where
  "embedQuery p new_client srv text w =
     (case valid_text text of
        None \<Rightarrow> (Inl TextEmpty, w)
      | Some t \<Rightarrow>
          (case new_client (client_fields_of p) of
             Some error \<Rightarrow> (Inl (EmbeddingError (message error)), w)
           | None \<Rightarrow>
               (case embeddingWithRetry srv (mk_request p (Single t)) w of
                  (Inl error, w') \<Rightarrow> (Inl (EmbeddingError (message error)), w')
                | (Inr resp, w') \<Rightarrow>
                    (case data resp of
                       [] \<Rightarrow> (Inl (EmbeddingError (message (JsError ''TypeError''))), w')
                     | d # _ \<Rightarrow> (Inr (embedding d), w')))))"

subsection \<open>embedDocuments\<close>

text \<open>
  The loop that maps a successful batched response back onto the batch. It stops at
  the first \<^verbatim>\<open>data[validIndex]\<close> that is missing, with the TypeError and with what it
  had pushed onto \<open>results\<close> by then.
\<close>

fun map_back ::
  "doc list \<Rightarrow> 'n item list \<Rightarrow> nat \<Rightarrow> 'n embedding list \<Rightarrow>
   'n embedding list \<times> thrown option" where
  "map_back [] dat validIndex results = (results, None)"
| "map_back (doc # rest) dat validIndex results =
     (case valid_text doc of
        Some t \<Rightarrow>
          (if validIndex < length dat
           then map_back rest dat (validIndex + 1)
                  (results @ [embedding (dat ! validIndex)])
           else (results, Some (JsError ''TypeError'')))
      | None \<Rightarrow> map_back rest dat validIndex (results @ [Vec []]))"

text \<open>The loop of the \<^verbatim>\<open>catch (batchError)\<close> block: one request per valid document.\<close>

fun fallback ::
  "provider \<Rightarrow> ('s, 'n) server \<Rightarrow> doc list \<Rightarrow> 'n embedding list \<Rightarrow> ('s, 'n) world \<Rightarrow>
   'n embedding list \<times> ('s, 'n) world" where
  "fallback p srv [] results w = (results, w)"
| "fallback p srv (doc # rest) results w =
     (case valid_text doc of
        Some t \<Rightarrow>
          (case embeddingWithRetry srv (mk_request p (Single t)) w of
             (Inr resp, w') \<Rightarrow>
               (case data resp of
                  d # _ \<Rightarrow> fallback p srv rest (results @ [embedding d]) w'
                | [] \<Rightarrow> fallback p srv rest (results @ [Vec []]) w')
           | (Inl individualError, w') \<Rightarrow> fallback p srv rest (results @ [Vec []]) w')
      | None \<Rightarrow> fallback p srv rest (results @ [Vec []]) w)"

text \<open>The body of the \<^verbatim>\<open>for\<close> loop, from \<^verbatim>\<open>validBatch\<close> on.\<close>

definition process_batch ::
  "provider \<Rightarrow> ('s, 'n) server \<Rightarrow> doc list \<Rightarrow> 'n embedding list \<Rightarrow> ('s, 'n) world \<Rightarrow>
   'n embedding list \<times> ('s, 'n) world" where
  "process_batch p srv batch results w =
     (let validBatch = List.map_filter valid_text batch in
      if length validBatch = 0 then (results @ map (\<lambda>_. Vec []) batch, w)
      else
        (case embeddingWithRetry srv (mk_request p (Many validBatch)) w of
           (Inl batchError, w') \<Rightarrow> fallback p srv batch results w'
         | (Inr resp, w') \<Rightarrow>
             (case map_back batch (data resp) 0 results of
                (results', None) \<Rightarrow> (results', w')
              | (results', Some batchError) \<Rightarrow> fallback p srv batch results' w')))"

text \<open>
  \<^verbatim>\<open>for (let i = 0; i < documents.length; i += batchSize)\<close>. Nothing bounds the number
  of iterations, so the loop is a partial function: \<open>None\<close> is a loop that never ends.
\<close>

partial_function (option) chunk_loop ::
  "provider \<Rightarrow> ('s, 'n) server \<Rightarrow> doc list \<Rightarrow> int \<Rightarrow> 'n embedding list \<Rightarrow>
   ('s, 'n) world \<Rightarrow> ('n embedding list \<times> ('s, 'n) world) option" where
  "chunk_loop p srv documents i results w =
     (if i < int (length documents) then
        (let batch = slice documents i (i + batchSize p) in
         case process_batch p srv batch results (w\<lparr>batches := batches w @ [batch]\<rparr>) of
           (results', w') \<Rightarrow> chunk_loop p srv documents (i + batchSize p) results' w')
      else Some (results, w))"

declare chunk_loop.simps [code]

definition embedDocuments ::
  "provider \<Rightarrow> (client_fields \<Rightarrow> thrown option) \<Rightarrow> ('s, 'n) server \<Rightarrow> doc list option \<Rightarrow>
   ('s, 'n) world \<Rightarrow> ((provider_error + 'n embedding list) \<times> ('s, 'n) world) option" where
  "embedDocuments p new_client srv documents w =
     (case documents of
        None \<Rightarrow> Some (Inl NoDocuments, w)
      | Some docs \<Rightarrow>
          if length docs = 0 then Some (Inl NoDocuments, w)
          else
            (case new_client (client_fields_of p) of
               Some error \<Rightarrow> Some (Inl (DocumentEmbeddingsError (message error)), w)
             | None \<Rightarrow>
                 (case chunk_loop p srv docs 0 [] w of
                    None \<Rightarrow> None
                  | Some (results, w') \<Rightarrow> Some (Inr results, w'))))"

subsection \<open>The requests made with fetch\<close>

record http_request =
  url :: string
  http_method :: string
  headers :: "(string \<times> string) list"

text \<open>An entry \<^verbatim>\<open>{id}\<close> of the models listing, and the body \<^verbatim>\<open>{data?: [...]}\<close>.\<close>

record model_entry =
  entry_id :: string

record models_body =
  models_data :: "model_entry list option"

text \<open>
  What the code reads of a fetch response: \<^verbatim>\<open>ok\<close>, \<^verbatim>\<open>status\<close>, \<^verbatim>\<open>statusText\<close> and
  the outcome of \<^verbatim>\<open>json()\<close>, which throws on a body that is not JSON.
\<close>

record http_response =
  ok :: bool
  status :: nat
  statusText :: string
  json :: "thrown + models_body"

type_synonym fetch = "http_request \<Rightarrow> thrown + http_response"

text \<open>An entry \<^verbatim>\<open>{name, value}\<close> of the options the host shows.\<close>

record node_option =
  opt_name :: string
  opt_value :: string

text \<open>\<^verbatim>\<open>.replace(/\\/g, '/')\<close>: every backslash becomes a slash.\<close>

definition normalize_url :: "string \<Rightarrow> string" where
  "normalize_url s = map (\<lambda>c. if c = CHR 0x5C then CHR ''/'' else c) s"

text \<open>
  The headers of both fetch calls:
  \<^verbatim>\<open>{'Content-Type': 'application/json',
    ...(credentials.apiKey && { Authorization: `Bearer ${credentials.apiKey}` })}\<close>.
  An absent or empty key is falsy, and spreading it adds nothing.
\<close>

definition fetch_headers :: "credentials \<Rightarrow> (string \<times> string) list" where
  "fetch_headers creds =
     (''Content-Type'', ''application/json'') #
     (case apiKey creds of
        None \<Rightarrow> []
      | Some k \<Rightarrow> if k \<noteq> [] then [(''Authorization'', ''Bearer '' @ k)] else [])"

definition models_request :: "string \<Rightarrow> credentials \<Rightarrow> http_request" where
  "models_request base creds =
     \<lparr>url = base @ ''/models'', http_method = ''GET'', headers = fetch_headers creds\<rparr>"

text \<open>A number in a template literal: its decimal digits.\<close>

fun show_nat :: "nat \<Rightarrow> string" where
  "show_nat n =
     (if n < 10 then [char_of (48 + n)]
      else show_nat (n div 10) @ [char_of (48 + n mod 10)])"

declare show_nat.simps [simp del]

datatype node_error =
    FetchModelsError string
  | ConnectionFailed string

fun node_error_text :: "node_error \<Rightarrow> string" where
  "node_error_text (FetchModelsError m) = ''Error fetching models from LM Studio: '' @ m"
| "node_error_text (ConnectionFailed m) = ''LM Studio connection failed: '' @ m"

subsection \<open>getModels\<close>

text \<open>
  The body of the \<^verbatim>\<open>try\<close> block after the request, common to both versions of the
  node: whatever is thrown inside is wrapped by the \<^verbatim>\<open>catch\<close>.
\<close>

definition models_of_response :: "thrown + http_response \<Rightarrow> node_error + node_option list" where
  "models_of_response fetched =
     (case fetched of
        Inl error \<Rightarrow> Inl (FetchModelsError (message error))
      | Inr response \<Rightarrow>
          if \<not> ok response then
            Inl (FetchModelsError
                  (''Failed to fetch models: '' @ show_nat (status response) @ '' '' @
                   statusText response))
          else
            (case json response of
               Inl error \<Rightarrow> Inl (FetchModelsError (message error))
             | Inr result \<Rightarrow>
                 (let models = (case models_data result of None \<Rightarrow> [] | Some ms \<Rightarrow> ms)
                  in Inr (map (\<lambda>model. \<lparr>opt_name = entry_id model, opt_value = entry_id model\<rparr>)
                           models))))"

text \<open>
  \<^verbatim>\<open>getModels\<close> of \<^verbatim>\<open>src/nodes/LMStudioEmbeddings.node.ts\<close>, which normalises the base
  URL. The result comes with the list of the requests made.
\<close>

definition getModels ::
  "credentials \<Rightarrow> fetch \<Rightarrow> (node_error + node_option list) \<times> http_request list" where
  "getModels creds fetch =
     (let baseUrl' = normalize_url (baseUrl creds);
          req = models_request baseUrl' creds
      in (models_of_response (fetch req), [req]))"

text \<open>\<^verbatim>\<open>getModels\<close> of the earlier version of the node, which takes the base URL as it is.\<close>

definition getModels_plain ::
  "credentials \<Rightarrow> fetch \<Rightarrow> (node_error + node_option list) \<times> http_request list" where
  "getModels_plain creds fetch =
     (let req = models_request (baseUrl creds) creds
      in (models_of_response (fetch req), [req]))"

subsection \<open>supplyData\<close>

text \<open>
  The credentials and the three node parameters are what the host hands over. The
  result is the error thrown or the provider, with the list of the requests made.
\<close>

definition supplyData ::
  "credentials \<Rightarrow> string \<Rightarrow> encoding_format \<Rightarrow> int \<Rightarrow> fetch \<Rightarrow>
   (node_error + provider) \<times> http_request list" where
  "supplyData creds model' encodingFormat' batchSize' fetch =
     (let baseUrl' = normalize_url (baseUrl creds);
          req = models_request baseUrl' creds
      in case fetch req of
           Inl error \<Rightarrow> (Inl (ConnectionFailed (message error)), [req])
         | Inr testResponse \<Rightarrow>
             if \<not> ok testResponse then
               (Inl (ConnectionFailed
                      (''Cannot connect to LM Studio: '' @ show_nat (status testResponse) @
                       '' '' @ statusText testResponse)), [req])
             else
               (Inr \<lparr>p_credentials = creds, p_baseUrl = baseUrl', p_model = model',
                     encodingFormat = encodingFormat', batchSize = batchSize'\<rparr>, [req]))"

subsection \<open>The credential type\<close>

text \<open>
  \<^verbatim>\<open>authenticate\<close> of \<^verbatim>\<open>LMStudioApi\<close> is a generic descriptor: a table of headers
  whose values are templates over the credential. The host adds every header of the
  table to every request made with the credential, the template filled in; the
  descriptor has no condition. The API key of the credential defaults to the empty
  string; an absent key is filled in as the empty string here.
\<close>

datatype template_part = Lit string | CredentialsApiKey

definition authenticate :: "(string \<times> template_part list) list" where
  "authenticate = [(''Authorization'', [Lit ''Bearer '', CredentialsApiKey])]"

fun fill :: "credentials \<Rightarrow> template_part \<Rightarrow> string" where
  "fill creds (Lit s) = s"
| "fill creds CredentialsApiKey = (case apiKey creds of None \<Rightarrow> [] | Some k \<Rightarrow> k)"

definition authenticate_headers :: "credentials \<Rightarrow> (string \<times> string) list" where
  "authenticate_headers creds = map (\<lambda>(h, t). (h, concat (map (fill creds) t))) authenticate"

text \<open>The request of the credential test, \<^verbatim>\<open>GET {baseUrl}/models\<close>, as the host sends it.\<close>

definition credential_test_request :: "credentials \<Rightarrow> http_request" where
  "credential_test_request creds =
     \<lparr>url = baseUrl creds @ ''/models'', http_method = ''GET'',
      headers = authenticate_headers creds\<rparr>"

section \<open>Notions used to state the properties\<close>

text \<open>The texts a request carries, in the order submitted.\<close>

fun texts :: "input \<Rightarrow> string list" where
  "texts (Single t) = [t]"
| "texts (Many ts) = ts"

text \<open>
  A successful batched exchange is complete when the response has an entry for each
  text submitted. A request that threw, and a request for one text, are complete.
\<close>

definition complete :: "request \<times> 'n outcome \<Rightarrow> bool" where
  "complete x =
     (case x of
        (req, Inl e) \<Rightarrow> True
      | (req, Inr resp) \<Rightarrow>
          (case input req of
             Single t \<Rightarrow> True
           | Many ts \<Rightarrow> length ts \<le> length (data resp)))"

text \<open>
  An exchange answers the text \<open>t\<close> with \<open>e\<close> when it succeeded and, at some position,
  the request carries \<open>t\<close> and the response carries \<open>e\<close>.
\<close>

definition answers :: "string \<Rightarrow> 'n embedding \<Rightarrow> request \<times> 'n outcome \<Rightarrow> bool" where
  "answers t e x =
     (case x of
        (req, Inl err) \<Rightarrow> False
      | (req, Inr resp) \<Rightarrow> (t, e) \<in> set (zip (texts (input req)) (map embedding (data resp))))"

text \<open>
  An exchange declines the text \<open>t\<close> when it is a request for \<open>t\<close> alone that threw or
  came back without an entry.
\<close>

definition declines :: "string \<Rightarrow> request \<times> 'n outcome \<Rightarrow> bool" where
  "declines t x =
     (case x of
        (req, Inl err) \<Rightarrow> input req = Single t
      | (req, Inr resp) \<Rightarrow> input req = Single t \<and> data resp = [])"

text \<open>
  What it means for the result \<open>e\<close> to correspond to the document \<open>doc\<close>, given the
  exchanges of the call: a blank document has the empty array; a document with text
  \<open>t\<close> has an embedding that some exchange returned for \<open>t\<close>, or the empty array
  after a request for \<open>t\<close> alone was declined.
\<close>

definition aligned :: "(request \<times> 'n outcome) list \<Rightarrow> doc \<Rightarrow> 'n embedding \<Rightarrow> bool" where
  "aligned ex doc e =
     (case valid_text doc of
        None \<Rightarrow> e = Vec []
      | Some t \<Rightarrow> list_ex (answers t e) ex \<or> (e = Vec [] \<and> list_ex (declines t) ex))"

definition placed :: "(string \<times> 'n embedding) list \<Rightarrow> doc \<Rightarrow> 'n embedding \<Rightarrow> bool" where
  "placed zs doc e = (case valid_text doc of None \<Rightarrow> e = Vec [] | Some t \<Rightarrow> (t, e) \<in> set zs)"

text \<open>
  The result at a document when \<open>emb\<close> gives the embedding of each text: the empty
  array for a blank document.
\<close>

definition place :: "(string \<Rightarrow> 'n embedding) \<Rightarrow> doc \<Rightarrow> 'n embedding" where
  "place emb doc = (case valid_text doc of None \<Rightarrow> Vec [] | Some t \<Rightarrow> emb t)"

text \<open>An exchange for one text that succeeded, its first entry the embedding \<open>emb\<close> gives.\<close>

definition served :: "(string \<Rightarrow> 'n embedding) \<Rightarrow> request \<times> 'n outcome \<Rightarrow> bool" where
  "served emb x =
     (case x of
        (req, Inl err) \<Rightarrow> False
      | (req, Inr resp) \<Rightarrow>
          (case input req of
             Many ts \<Rightarrow> False
           | Single t \<Rightarrow> (case data resp of [] \<Rightarrow> False | d # _ \<Rightarrow> embedding d = emb t)))"

text \<open>The j-th chunk of size \<open>b\<close> of a list: the items from \<open>j * b\<close> up to \<open>(j + 1) * b\<close>.\<close>

definition chunk_at :: "'a list \<Rightarrow> nat \<Rightarrow> nat \<Rightarrow> 'a list" where
  "chunk_at xs b j = take b (drop (j * b) xs)"

subsection \<open>Endpoints and settings used as examples\<close>

text \<open>An endpoint that answers every request with one entry per text, computed by \<open>emb\<close>.\<close>

definition echo_server :: "(string \<Rightarrow> 'n embedding) \<Rightarrow> ('s, 'n) server" where
  "echo_server emb s req = (Inr \<lparr>data = map (\<lambda>t. \<lparr>embedding = emb t\<rparr>) (texts (input req))\<rparr>, s)"

text \<open>An endpoint that answers a batch with an empty \<open>data\<close> array and serves single texts.\<close>

definition short_server :: "(string \<Rightarrow> 'n embedding) \<Rightarrow> ('s, 'n) server" where
  "short_server emb s req =
     (case input req of
        Single t \<Rightarrow> (Inr \<lparr>data = [\<lparr>embedding = emb t\<rparr>]\<rparr>, s)
      | Many ts \<Rightarrow> (Inr \<lparr>data = []\<rparr>, s))"

text \<open>An endpoint that rejects every batch and serves single texts.\<close>

definition single_only_server :: "(string \<Rightarrow> 'n embedding) \<Rightarrow> ('s, 'n) server" where
  "single_only_server emb s req =
     (case input req of
        Single t \<Rightarrow> (Inr \<lparr>data = [\<lparr>embedding = emb t\<rparr>]\<rparr>, s)
      | Many ts \<Rightarrow> (Inl (JsError ''400 input must be a string''), s))"

text \<open>
  An endpoint that knows the text \<open>a\<close> only: it answers the batch \<open>[a]\<close> with an empty
  \<open>data\<close> array, serves \<open>a\<close> when asked for it alone, and throws on every other request.
\<close>

definition a_only_server :: "(string \<Rightarrow> 'n embedding) \<Rightarrow> ('s, 'n) server" where
  "a_only_server emb s req =
     (case input req of
        Single t \<Rightarrow>
          if t = ''a'' then (Inr \<lparr>data = [\<lparr>embedding = emb t\<rparr>]\<rparr>, s)
          else (Inl (JsError ''ECONNREFUSED''), s)
      | Many ts \<Rightarrow>
          if ts = [''a''] then (Inr \<lparr>data = []\<rparr>, s)
          else (Inl (JsError ''ECONNREFUSED''), s))"

text \<open>An endpoint that is down.\<close>

definition down_server :: "('s, 'n) server" where
  "down_server s req = (Inl (JsError ''ECONNREFUSED''), s)"

definition emb_length :: "string \<Rightarrow> nat embedding" where
  "emb_length t = Vec [length t]"

text \<open>A client constructor that never throws, and one that refuses a missing API key.\<close>

definition constructed :: "client_fields \<Rightarrow> thrown option" where
  "constructed cf = None"

definition key_required :: "client_fields \<Rightarrow> thrown option" where
  "key_required cf =
     (case cf_apiKey cf of
        None \<Rightarrow> Some (JsError ''OpenAI or Azure OpenAI API key not found'')
      | Some k \<Rightarrow>
          if k = [] then Some (JsError ''OpenAI or Azure OpenAI API key not found'') else None)"

definition local_credentials :: credentials where
  "local_credentials = \<lparr>baseUrl = ''http://localhost:1234/v1'', apiKey = Some []\<rparr>"

definition keyed_credentials :: credentials where
  "keyed_credentials = \<lparr>baseUrl = ''http://localhost:1234/v1'', apiKey = Some ''secret''\<rparr>"

definition example_provider :: "credentials \<Rightarrow> int \<Rightarrow> provider" where
  "example_provider creds b =
     \<lparr>p_credentials = creds, p_baseUrl = normalize_url (baseUrl creds),
      p_model = ''text-embedding-model'', encodingFormat = Float, batchSize = b\<rparr>"

definition fresh :: "(unit, nat) world" where
  "fresh = \<lparr>server_state = (), exchanges = [], batches = []\<rparr>"

section \<open>Properties\<close>

subsection \<open>The loop and its body\<close>

text \<open>For a start that is not negative and a size that is not negative, a slice is a chunk.\<close>

lemma slice_chunk:
  assumes "0 \<le> i" and "0 \<le> b"
  shows "slice xs i (i + b) = take (nat b) (drop (nat i) xs)"
  using assms by (auto simp: slice_def Let_def min_def max_def)

text \<open>
  The loop rule: with a batch size of at least 1 the loop returns, and an invariant that
  the body keeps holds of what it returns, with the index past the end of the list.
\<close>

lemma chunk_loop_invariant:
  assumes B: "1 \<le> batchSize p"
    and init: "I i results w"
    and step: "\<And>i results w. I i results w \<Longrightarrow> i < int (length docs) \<Longrightarrow>
       I (i + batchSize p)
         (fst (process_batch p srv (slice docs i (i + batchSize p)) results
                 (w\<lparr>batches := batches w @ [slice docs i (i + batchSize p)]\<rparr>)))
         (snd (process_batch p srv (slice docs i (i + batchSize p)) results
                 (w\<lparr>batches := batches w @ [slice docs i (i + batchSize p)]\<rparr>)))"
  shows "\<exists>k results' w'. chunk_loop p srv docs i results w = Some (results', w') \<and>
           I k results' w' \<and> int (length docs) \<le> k"
  using init
proof (induction "nat (int (length docs) - i)" arbitrary: i results w rule: less_induct)
  case less
  show ?case
  proof (cases "i < int (length docs)")
    case False
    then show ?thesis using less.prems
      by (subst chunk_loop.simps) auto
  next
    case True
    let ?b = "slice docs i (i + batchSize p)"
    let ?r = "process_batch p srv ?b results (w\<lparr>batches := batches w @ [?b]\<rparr>)"
    have I': "I (i + batchSize p) (fst ?r) (snd ?r)"
      using step [OF less.prems True] .
    have "nat (int (length docs) - (i + batchSize p)) < nat (int (length docs) - i)"
      using B True by linarith
    from less.hyps [OF this I']
    obtain k results' w' where
      "chunk_loop p srv docs (i + batchSize p) (fst ?r) (snd ?r) = Some (results', w')"
      "I k results' w'" "int (length docs) \<le> k"
      by blast
    then show ?thesis using True
      by (subst chunk_loop.simps) (auto simp: Let_def split: prod.splits)
  qed
qed

text \<open>With a batch size of 0 or less, a loop started inside the list does not return.\<close>

lemma chunk_loop_never_returns:
  assumes ret: "chunk_loop p srv docs i results w = Some y"
  shows "\<not> (batchSize p \<le> 0 \<and> i < int (length docs))"
proof (rule chunk_loop.raw_induct
    [where P = "\<lambda>p srv docs i results w y. \<not> (batchSize p \<le> 0 \<and> i < int (length docs))",
     rotated, OF ret])
  fix f p srv docs i results w y
  assume IH: "\<And>p srv docs i results w y. f p srv docs i results w = Some y \<Longrightarrow>
                \<not> (batchSize p \<le> 0 \<and> i < int (length docs))"
    and eq: "(if i < int (length docs) then
               (let batch = slice docs i (i + batchSize p) in
                case process_batch p srv batch results (w\<lparr>batches := batches w @ [batch]\<rparr>) of
                  (results', w') \<Rightarrow> f p srv docs (i + batchSize p) results' w')
             else Some (results, w)) = Some (y :: 'c embedding list \<times> ('b, 'c) world)"
  show "\<not> (batchSize p \<le> 0 \<and> i < int (length docs))"
  proof
    assume a: "batchSize p \<le> 0 \<and> i < int (length docs)"
    let ?b = "slice docs i (i + batchSize p)"
    obtain r' w' where pb: "process_batch p srv ?b results (w\<lparr>batches := batches w @ [?b]\<rparr>) = (r', w')"
      by (cases "process_batch p srv ?b results (w\<lparr>batches := batches w @ [?b]\<rparr>)")
    from eq a pb have "f p srv docs (i + batchSize p) r' w' = Some y"
      by (simp add: Let_def)
    from IH [OF this] a show False by simp
  qed
qed


text \<open>More exchanges keep a result aligned.\<close>

lemma aligned_mono: "aligned ex doc e \<Longrightarrow> aligned (pre @ ex @ post) doc e"
  by (auto simp: aligned_def list_ex_iff split: option.splits)

lemma aligned_mono_all2:
  "list_all2 (aligned ex) ds es \<Longrightarrow> list_all2 (aligned (pre @ ex @ post)) ds es"
  by (erule list_all2_mono) (rule aligned_mono)

lemma embeddingWithRetry_world:
  "exchanges (snd (embeddingWithRetry srv req w)) =
     exchanges w @ [(req, fst (embeddingWithRetry srv req w))]"
  "batches (snd (embeddingWithRetry srv req w)) = batches w"
  by (simp_all add: embeddingWithRetry_def Let_def split: prod.splits)

text \<open>
  The fallback loop appends one element per document of the chunk, each aligned with
  its document by the exchanges the loop made.
\<close>

lemma fallback_aligned:
  "\<exists>out new. fst (fallback p srv batch results w) = results @ out \<and>
     exchanges (snd (fallback p srv batch results w)) = exchanges w @ new \<and>
     batches (snd (fallback p srv batch results w)) = batches w \<and>
     list_all2 (aligned new) batch out"
proof (induction batch arbitrary: results w)
  case Nil
  show ?case by simp
next
  case (Cons doc rest)
  show ?case
  proof (cases "valid_text doc")
    case None
    from Cons [of "results @ [Vec []]" w] obtain out new where
      h: "fst (fallback p srv rest (results @ [Vec []]) w) = (results @ [Vec []]) @ out"
         "exchanges (snd (fallback p srv rest (results @ [Vec []]) w)) = exchanges w @ new"
         "batches (snd (fallback p srv rest (results @ [Vec []]) w)) = batches w"
         "list_all2 (aligned new) rest out"
      by blast
    have "aligned new doc (Vec [])" using None by (simp add: aligned_def)
    with h None show ?thesis
      by (intro exI [of _ "Vec [] # out"] exI [of _ new]) simp
  next
    case (Some t)
    let ?req = "mk_request p (Single t)"
    obtain outc w1 where ewr: "embeddingWithRetry srv ?req w = (outc, w1)"
      by (cases "embeddingWithRetry srv ?req w")
    have w1: "exchanges w1 = exchanges w @ [(?req, outc)]" "batches w1 = batches w"
      using embeddingWithRetry_world [of srv ?req w] ewr by simp_all
    define e where "e = (case outc of Inl err \<Rightarrow> Vec [] | Inr resp \<Rightarrow>
                           (case data resp of [] \<Rightarrow> Vec [] | d # _ \<Rightarrow> embedding d))"
    have step: "fallback p srv (doc # rest) results w = fallback p srv rest (results @ [e]) w1"
      using Some ewr by (simp add: e_def split: sum.splits list.splits)
    from Cons [of "results @ [e]" w1] obtain out new where
      h: "fst (fallback p srv rest (results @ [e]) w1) = (results @ [e]) @ out"
         "exchanges (snd (fallback p srv rest (results @ [e]) w1)) = exchanges w1 @ new"
         "batches (snd (fallback p srv rest (results @ [e]) w1)) = batches w1"
         "list_all2 (aligned new) rest out"
      by blast
    have "aligned [(?req, outc)] doc e"
      using Some
      by (auto simp: aligned_def e_def answers_def declines_def mk_request_def
               split: sum.splits list.splits)
    then have a1: "aligned ((?req, outc) # new) doc e"
      using aligned_mono [of "[(?req, outc)]" doc e "[]" new] by simp
    have a2: "list_all2 (aligned ((?req, outc) # new)) rest out"
      using aligned_mono_all2 [OF h(4), of "[(?req, outc)]" "[]"] by simp
    show ?thesis
      unfolding step using h w1 a1 a2
      by (intro exI [of _ "e # out"] exI [of _ "(?req, outc) # new"]) simp
  qed
qed

text \<open>
  With an entry for each text, the mapping loop does not throw and appends one element
  per document: the empty array for a blank one, the entry at the position of its text
  otherwise.
\<close>

lemma map_back_complete:
  assumes "length pre + length (List.map_filter valid_text batch) \<le> length dat"
  shows "\<exists>out. map_back batch dat (length pre) results = (results @ out, None) \<and>
           list_all2 (placed (zip (pre @ List.map_filter valid_text batch) (map embedding dat)))
             batch out"
  using assms
proof (induction batch arbitrary: pre results)
  case Nil
  show ?case by simp
next
  case (Cons doc rest)
  show ?case
  proof (cases "valid_text doc")
    case None
    then have mf: "List.map_filter valid_text (doc # rest) = List.map_filter valid_text rest"
      by simp
    from Cons.IH [of pre "results @ [Vec []]"] Cons.prems mf obtain out where
      h: "map_back rest dat (length pre) (results @ [Vec []]) = ((results @ [Vec []]) @ out, None)"
         "list_all2 (placed (zip (pre @ List.map_filter valid_text rest) (map embedding dat)))
             rest out"
      by auto
    have "placed zs doc (Vec [])" for zs :: "(string \<times> 'a embedding) list"
      using None by (simp add: placed_def)
    with h None show ?thesis
      by (intro exI [of _ "Vec [] # out"]) simp
  next
    case (Some t)
    then have mf: "List.map_filter valid_text (doc # rest) = t # List.map_filter valid_text rest"
      by simp
    have lt: "length pre < length dat" using Cons.prems mf by simp
    let ?e = "embedding (dat ! length pre)"
    from Cons.IH [of "pre @ [t]" "results @ [?e]"] Cons.prems mf obtain out where
      h: "map_back rest dat (length (pre @ [t])) (results @ [?e]) = ((results @ [?e]) @ out, None)"
         "list_all2 (placed (zip ((pre @ [t]) @ List.map_filter valid_text rest)
                                                  (map embedding dat)))
             rest out"
      by auto
    have "(t, ?e) \<in> set (zip (pre @ t # List.map_filter valid_text rest) (map embedding dat))"
      using lt by (auto simp: in_set_zip intro!: exI [of _ "length pre"])
    then have "placed (zip (pre @ t # List.map_filter valid_text rest) (map embedding dat)) doc ?e"
      using Some by (simp add: placed_def)
    with h Some lt show ?thesis
      by (intro exI [of _ "?e # out"]) simp
  qed
qed

lemma map_filter_Nil_conv:
  "List.map_filter f xs = [] \<longleftrightarrow> (\<forall>x \<in> set xs. f x = None)"
  by (induction xs) (auto split: option.splits)

text \<open>
  The body of the loop only adds exchanges, leaves the record of chunks alone and,
  when the exchanges it added are complete, appends one aligned element per document.
\<close>

lemma process_batch_aligned:
  "\<exists>out new.
     exchanges (snd (process_batch p srv batch results w)) = exchanges w @ new \<and>
     batches (snd (process_batch p srv batch results w)) = batches w \<and>
     (list_all complete new \<longrightarrow>
        fst (process_batch p srv batch results w) = results @ out \<and>
        list_all2 (aligned new) batch out)"
proof (cases "List.map_filter valid_text batch = []")
  case True
  then have "\<forall>d \<in> set batch. valid_text d = None"
    by (simp add: map_filter_Nil_conv)
  then have "list_all2 (aligned []) batch (map (\<lambda>_. Vec []) batch)"
    by (simp add: list_all2_conv_all_nth aligned_def)
  with True show ?thesis
    by (intro exI [of _ "map (\<lambda>_. Vec []) batch"] exI [of _ "[]"])
       (simp add: process_batch_def)
next
  case False
  let ?valid = "List.map_filter valid_text batch"
  let ?req = "mk_request p (Many ?valid)"
  obtain outc w1 where ewr: "embeddingWithRetry srv ?req w = (outc, w1)"
    by (cases "embeddingWithRetry srv ?req w")
  have w1: "exchanges w1 = exchanges w @ [(?req, outc)]" "batches w1 = batches w"
    using embeddingWithRetry_world [of srv ?req w] ewr by simp_all
  show ?thesis
  proof (cases outc)
    case (Inl err)
    then have pb: "process_batch p srv batch results w = fallback p srv batch results w1"
      using False ewr by (simp add: process_batch_def)
    from fallback_aligned [of p srv batch results w1] obtain out new where
      h: "fst (fallback p srv batch results w1) = results @ out"
         "exchanges (snd (fallback p srv batch results w1)) = exchanges w1 @ new"
         "batches (snd (fallback p srv batch results w1)) = batches w1"
         "list_all2 (aligned new) batch out"
      by blast
    have "list_all2 (aligned ((?req, outc) # new)) batch out"
      using aligned_mono_all2 [OF h(4), of "[(?req, outc)]" "[]"] by simp
    with h w1 show ?thesis
      unfolding pb
      by (intro exI [of _ out] exI [of _ "(?req, outc) # new"]) simp
  next
    case (Inr resp)
    show ?thesis
    proof (cases "length ?valid \<le> length (data resp)")
      case True
      from map_back_complete [of "[]" batch "data resp" results] True obtain out where
        h: "map_back batch (data resp) 0 results = (results @ out, None)"
           "list_all2 (placed (zip ?valid (map embedding (data resp)))) batch out"
        by auto
      have pb: "process_batch p srv batch results w = (results @ out, w1)"
        using False ewr Inr h(1) by (simp add: process_batch_def)
      have "list_all2 (aligned [(?req, outc)]) batch out"
        using h(2)
        by (rule list_all2_mono)
           (auto simp: placed_def aligned_def answers_def Inr mk_request_def split: option.splits)
      with w1 show ?thesis
        unfolding pb
        by (intro exI [of _ out] exI [of _ "[(?req, outc)]"]) simp
    next
      case short: False
      obtain r1 t1 where mb: "map_back batch (data resp) 0 results = (r1, t1)"
        by (cases "map_back batch (data resp) 0 results")
      have inc: "\<not> complete (?req, outc)"
        using short by (simp add: complete_def Inr mk_request_def)
      show ?thesis
      proof (cases t1)
        case None
        then have pb: "process_batch p srv batch results w = (r1, w1)"
          using False ewr Inr mb by (simp add: process_batch_def)
        show ?thesis unfolding pb using w1 inc
          by (intro exI [of _ "[]"] exI [of _ "[(?req, outc)]"]) simp
      next
        case (Some err)
        then have pb: "process_batch p srv batch results w = fallback p srv batch r1 w1"
          using False ewr Inr mb by (simp add: process_batch_def)
        from fallback_aligned [of p srv batch r1 w1] obtain out new where
          h: "exchanges (snd (fallback p srv batch r1 w1)) = exchanges w1 @ new"
             "batches (snd (fallback p srv batch r1 w1)) = batches w1"
          by blast
        show ?thesis unfolding pb using w1 h inc
          by (intro exI [of _ "[]"] exI [of _ "(?req, outc) # new"]) simp
      qed
    qed
  qed
qed


text \<open>The same for the whole loop, by the loop rule.\<close>

lemma chunk_loop_aligned:
  fixes w :: "('s, 'n) world"
  assumes B: "1 \<le> batchSize p"
  shows "\<exists>results w' new. chunk_loop p srv docs 0 [] w = Some (results, w') \<and>
           exchanges w' = exchanges w @ new \<and>
           (list_all complete new \<longrightarrow> list_all2 (aligned new) docs results)"
proof -
  define I where "I = (\<lambda>i results (w' :: ('s, 'n) world). 0 \<le> i \<and>
     (\<exists>new. exchanges w' = exchanges w @ new \<and>
        (list_all complete new \<longrightarrow> list_all2 (aligned new) (take (nat i) docs) results)))"
  have init: "I 0 [] w" by (simp add: I_def)
  have step: "I (i + batchSize p)
         (fst (process_batch p srv (slice docs i (i + batchSize p)) results
                 (wi\<lparr>batches := batches wi @ [slice docs i (i + batchSize p)]\<rparr>)))
         (snd (process_batch p srv (slice docs i (i + batchSize p)) results
                 (wi\<lparr>batches := batches wi @ [slice docs i (i + batchSize p)]\<rparr>)))"
    if inv: "I i results wi" and lt: "i < int (length docs)" for i results wi
  proof -
    let ?b = "slice docs i (i + batchSize p)"
    let ?wb = "wi\<lparr>batches := batches wi @ [?b]\<rparr>"
    let ?pb = "process_batch p srv ?b results ?wb"
    from inv obtain new where i0: "0 \<le> i"
      and ex: "exchanges wi = exchanges w @ new"
      and al: "list_all complete new \<longrightarrow> list_all2 (aligned new) (take (nat i) docs) results"
      by (auto simp: I_def)
    have b: "?b = take (nat (batchSize p)) (drop (nat i) docs)"
      using i0 B by (simp add: slice_chunk)
    from process_batch_aligned [of p srv ?b results ?wb] obtain out new2 where
      ex2: "exchanges (snd ?pb) = exchanges ?wb @ new2"
      and al2: "list_all complete new2 \<longrightarrow>
                  fst ?pb = results @ out \<and> list_all2 (aligned new2) ?b out"
      by blast
    have tk: "take (nat (i + batchSize p)) docs = take (nat i) docs @ ?b"
      using i0 B by (simp add: b nat_add_distrib take_add)
    have "list_all2 (aligned (new @ new2)) (take (nat (i + batchSize p)) docs) (fst ?pb)"
      if c: "list_all complete (new @ new2)"
    proof -
      from c al have 1: "list_all2 (aligned new) (take (nat i) docs) results" by simp
      from c al2 have 2: "fst ?pb = results @ out" "list_all2 (aligned new2) ?b out" by simp_all
      have m1: "list_all2 (aligned (new @ new2)) (take (nat i) docs) results"
        using aligned_mono_all2 [OF 1, of "[]" new2] by simp
      have m2: "list_all2 (aligned (new @ new2)) ?b out"
        using aligned_mono_all2 [OF 2(2), of new "[]"] by simp
      show ?thesis unfolding tk 2(1) using m1 m2 by (rule list_all2_appendI)
    qed
    then show ?thesis
      unfolding I_def using i0 B ex ex2
      by (intro conjI exI [of _ "new @ new2"]) simp_all
  qed
  from chunk_loop_invariant [of p I 0 "[]" w docs srv, OF B init step]
  obtain k results w' where r: "chunk_loop p srv docs 0 [] w = Some (results, w')"
    and "I k results w'" and k: "int (length docs) \<le> k"
    by blast
  then obtain new where "exchanges w' = exchanges w @ new"
    "list_all complete new \<longrightarrow> list_all2 (aligned new) (take (nat k) docs) results"
    by (auto simp: I_def)
  moreover have "take (nat k) docs = docs" using k by simp
  ultimately show ?thesis using r by auto
qed


subsection \<open>The chunks the loop takes\<close>

text \<open>The number \<open>m\<close> with \<open>(m - 1) * b < n \<le> m * b\<close> is \<open>n\<close> divided by \<open>b\<close>, rounded up.\<close>

lemma ceil_div_unique:
  fixes m n b :: nat
  assumes "0 < b" and "n \<le> m * b" and "m = 0 \<or> (m - 1) * b < n"
  shows "m = (n + b - 1) div b"
proof (cases "m = 0")
  case True
  with assms show ?thesis by simp
next
  case False
  then obtain m' where m: "m = Suc m'" by (cases m) auto
  with assms have lo: "m' * b < n" and hi: "n \<le> Suc m' * b" by simp_all
  have "(n + b - 1) div b = Suc m'"
  proof (rule div_nat_eqI)
    show "b * Suc m' \<le> n + b - 1" using lo assms(1) by (simp add: mult.commute)
    show "n + b - 1 < b * Suc (Suc m')" using hi assms(1) by (simp add: mult.commute)
  qed
  with m show ?thesis by simp
qed

lemma concat_chunks: "concat (map (chunk_at xs b) [0..<m]) = take (m * b) xs"
proof (induction m)
  case 0
  show ?case by simp
next
  case (Suc m)
  have "take (Suc m * b) xs = take (m * b) xs @ take b (drop (m * b) xs)"
    by (simp add: take_add [symmetric] add.commute)
  with Suc show ?case by (simp add: chunk_at_def)
qed

lemma process_batch_batches:
  "batches (snd (process_batch p srv batch results w)) = batches w"
  using process_batch_aligned [of p srv batch results w] by blast

lemma chunk_loop_batches:
  fixes w :: "('s, 'n) world"
  assumes B: "1 \<le> batchSize p"
  shows "\<exists>results' w'. chunk_loop p srv docs 0 results w = Some (results', w') \<and>
           batches w' = batches w @
             map (chunk_at docs (nat (batchSize p)))
               [0..<(length docs + nat (batchSize p) - 1) div nat (batchSize p)]"
proof -
  let ?b = "nat (batchSize p)"
  define J where "J = (\<lambda>i (r :: 'n embedding list) (wi :: ('s, 'n) world).
     \<exists>m. i = int m * batchSize p \<and>
         batches wi = batches w @ map (chunk_at docs ?b) [0..<m] \<and>
         (m = 0 \<or> (m - 1) * ?b < length docs))"
  have init: "J 0 results w" by (simp add: J_def)
  have step: "J (i + batchSize p)
         (fst (process_batch p srv (slice docs i (i + batchSize p)) r
                 (wi\<lparr>batches := batches wi @ [slice docs i (i + batchSize p)]\<rparr>)))
         (snd (process_batch p srv (slice docs i (i + batchSize p)) r
                 (wi\<lparr>batches := batches wi @ [slice docs i (i + batchSize p)]\<rparr>)))"
    if inv: "J i r wi" and lt: "i < int (length docs)" for i r wi
  proof -
    from inv obtain m where i: "i = int m * batchSize p"
      and bs: "batches wi = batches w @ map (chunk_at docs ?b) [0..<m]"
      by (auto simp: J_def)
    have ni: "nat i = m * ?b" using i B by (simp add: nat_mult_distrib)
    have "0 \<le> i" using i B by simp
    have "slice docs i (i + batchSize p) = take ?b (drop (nat i) docs)"
      using B \<open>0 \<le> i\<close> by (simp add: slice_chunk)
    then have sl: "slice docs i (i + batchSize p) = chunk_at docs ?b m"
      unfolding ni by (simp add: chunk_at_def)
    have "nat i < length docs" using lt \<open>0 \<le> i\<close> by simp
    then have "m * ?b < length docs" unfolding ni .
    then have fresh_chunk: "Suc m = 0 \<or> (Suc m - 1) * ?b < length docs" by simp
    have idx: "i + batchSize p = int (Suc m) * batchSize p"
      using i by (simp add: algebra_simps)
    have tr: "batches (snd (process_batch p srv (slice docs i (i + batchSize p)) r
                 (wi\<lparr>batches := batches wi @ [slice docs i (i + batchSize p)]\<rparr>))) =
              batches w @ map (chunk_at docs ?b) [0..<Suc m]"
      by (simp add: process_batch_batches bs sl)
    show ?thesis
      unfolding J_def using idx tr fresh_chunk by blast
  qed
  from chunk_loop_invariant [of p J 0 results w docs srv, OF B init step]
  obtain k results' w' where r: "chunk_loop p srv docs 0 results w = Some (results', w')"
    and "J k results' w'" and k: "int (length docs) \<le> k"
    by blast
  then obtain m where km: "k = int m * batchSize p"
    and bs: "batches w' = batches w @ map (chunk_at docs ?b) [0..<m]"
    and m: "m = 0 \<or> (m - 1) * ?b < length docs"
    by (auto simp: J_def)
  have "nat k = m * ?b" using km B by (simp add: nat_mult_distrib)
  then have "length docs \<le> m * ?b" using k by linarith
  from ceil_div_unique [OF _ this m] B have "m = (length docs + ?b - 1) div ?b" by simp
  with r bs show ?thesis by simp
qed

lemma chunk_at_bounds:
  assumes "0 < b" and "j < (length xs + b - 1) div b"
  shows "chunk_at xs b j \<noteq> []" and "length (chunk_at xs b j) \<le> b"
proof -
  have "j * b < length xs"
  proof (rule ccontr)
    assume "\<not> j * b < length xs"
    then have "length xs + b - 1 < Suc j * b" using assms(1) by simp
    then have "(length xs + b - 1) div b < Suc j"
      using assms(1) by (simp add: div_less_iff_less_mult)
    with assms(2) show False by simp
  qed
  then show "chunk_at xs b j \<noteq> []" using assms(1) by (simp add: chunk_at_def)
  show "length (chunk_at xs b j) \<le> b" by (simp add: chunk_at_def)
qed

lemma chunks_cover:
  assumes "0 < b"
  shows "concat (map (chunk_at xs b) [0..<(length xs + b - 1) div b]) = xs"
proof -
  have "length xs \<le> ((length xs + b - 1) div b) * b"
  proof -
    have "length xs + b - 1 < Suc ((length xs + b - 1) div b) * b"
      using assms by (metis dividend_less_div_times mult.commute mult_Suc)
    then show ?thesis using assms by simp
  qed
  then show ?thesis by (simp add: concat_chunks)
qed

text \<open>On blank documents the loop makes no request.\<close>

lemma chunk_loop_blank:
  fixes w :: "('s, 'n) world"
  assumes B: "1 \<le> batchSize p" and blank: "\<forall>d \<in> set docs. valid_text d = None"
  shows "\<exists>w'. chunk_loop p srv docs 0 [] w = Some (replicate (length docs) (Vec []), w') \<and>
           exchanges w' = exchanges w \<and> server_state w' = server_state w"
proof -
  define K where "K = (\<lambda>i (r :: 'n embedding list) (wi :: ('s, 'n) world).
     0 \<le> i \<and> exchanges wi = exchanges w \<and> server_state wi = server_state w \<and>
     r = replicate (min (nat i) (length docs)) (Vec []))"
  have init: "K 0 [] w" by (simp add: K_def)
  have step: "K (i + batchSize p)
         (fst (process_batch p srv (slice docs i (i + batchSize p)) r
                 (wi\<lparr>batches := batches wi @ [slice docs i (i + batchSize p)]\<rparr>)))
         (snd (process_batch p srv (slice docs i (i + batchSize p)) r
                 (wi\<lparr>batches := batches wi @ [slice docs i (i + batchSize p)]\<rparr>)))"
    if inv: "K i r wi" and lt: "i < int (length docs)" for i r wi
  proof -
    let ?c = "slice docs i (i + batchSize p)"
    from inv have i0: "0 \<le> i" and ex: "exchanges wi = exchanges w"
      and st: "server_state wi = server_state w"
      and r: "r = replicate (min (nat i) (length docs)) (Vec [])"
      by (auto simp: K_def)
    have c: "?c = take (nat (batchSize p)) (drop (nat i) docs)"
      using i0 B by (simp add: slice_chunk)
    have "set ?c \<subseteq> set docs"
      unfolding c by (meson set_take_subset set_drop_subset subset_trans)
    with blank have "List.map_filter valid_text ?c = []"
      by (auto simp: map_filter_Nil_conv)
    then have pb: "process_batch p srv ?c r (wi\<lparr>batches := batches wi @ [?c]\<rparr>) =
                     (r @ map (\<lambda>_. Vec []) ?c, wi\<lparr>batches := batches wi @ [?c]\<rparr>)"
      by (simp add: process_batch_def)
    have len: "length ?c = min (nat (batchSize p)) (length docs - nat i)"
      unfolding c by simp
    have "min (nat i) (length docs) + min (nat (batchSize p)) (length docs - nat i) =
            min (nat (i + batchSize p)) (length docs)"
      using i0 B lt by (auto simp: min_def nat_add_distrib)
    then have "r @ map (\<lambda>_. Vec []) ?c = replicate (min (nat (i + batchSize p)) (length docs)) (Vec [])"
      by (simp add: r map_replicate_const len replicate_add [symmetric])
    then show ?thesis
      unfolding K_def pb using i0 B ex st by simp
  qed
  from chunk_loop_invariant [of p K 0 "[]" w docs srv, OF B init step]
  obtain k results' w' where r: "chunk_loop p srv docs 0 [] w = Some (results', w')"
    and "K k results' w'" and k: "int (length docs) \<le> k"
    by blast
  then show ?thesis by (auto simp: K_def min_def)
qed

subsection \<open>A chunk whose requests are served\<close>

lemma fallback_exchanges:
  "\<exists>new. exchanges (snd (fallback p srv batch results w)) = exchanges w @ new"
  using fallback_aligned [of p srv batch results w] by blast

lemma fallback_served:
  assumes "list_all (served emb)
             (drop (length (exchanges w)) (exchanges (snd (fallback p srv batch results w))))"
  shows "fst (fallback p srv batch results w) = results @ map (place emb) batch"
  using assms
proof (induction batch arbitrary: results w)
  case Nil
  show ?case by simp
next
  case (Cons doc rest)
  show ?case
  proof (cases "valid_text doc")
    case None
    then have step: "fallback p srv (doc # rest) results w =
                       fallback p srv rest (results @ [Vec []]) w"
      by simp
    from Cons.prems have "list_all (served emb)
        (drop (length (exchanges w))
           (exchanges (snd (fallback p srv rest (results @ [Vec []]) w))))"
      unfolding step .
    from Cons.IH [OF this] None show ?thesis
      unfolding step by (simp add: place_def)
  next
    case (Some t)
    let ?req = "mk_request p (Single t)"
    obtain outc w1 where ewr: "embeddingWithRetry srv ?req w = (outc, w1)"
      by (cases "embeddingWithRetry srv ?req w")
    have w1: "exchanges w1 = exchanges w @ [(?req, outc)]"
      using embeddingWithRetry_world(1) [of srv ?req w] ewr by simp
    define e where "e = (case outc of Inl err \<Rightarrow> Vec [] | Inr resp \<Rightarrow>
                           (case data resp of [] \<Rightarrow> Vec [] | d # _ \<Rightarrow> embedding d))"
    have step: "fallback p srv (doc # rest) results w = fallback p srv rest (results @ [e]) w1"
      using Some ewr by (simp add: e_def split: sum.splits list.splits)
    obtain new where new: "exchanges (snd (fallback p srv rest (results @ [e]) w1)) =
                             exchanges w1 @ new"
      using fallback_exchanges by blast
    from Cons.prems have all: "list_all (served emb) ((?req, outc) # new)"
      unfolding step new w1 by simp
    then have "served emb (?req, outc)" by simp
    then have e: "e = emb t"
      by (auto simp: served_def e_def mk_request_def split: sum.splits list.splits)
    from all have "list_all (served emb)
        (drop (length (exchanges w1)) (exchanges (snd (fallback p srv rest (results @ [e]) w1))))"
      unfolding new by simp
    from Cons.IH [OF this] Some e show ?thesis
      unfolding step by (simp add: place_def)
  qed
qed

lemma map_back_served:
  assumes "map embedding (drop validIndex dat) = map emb (List.map_filter valid_text batch)"
  shows "map_back batch dat validIndex results = (results @ map (place emb) batch, None)"
  using assms
proof (induction batch arbitrary: validIndex results)
  case Nil
  show ?case by simp
next
  case (Cons doc rest)
  show ?case
  proof (cases "valid_text doc")
    case None
    with Cons.prems have "map embedding (drop validIndex dat) =
                            map emb (List.map_filter valid_text rest)"
      by simp
    from Cons.IH [OF this] None show ?thesis by (simp add: place_def)
  next
    case (Some t)
    with Cons.prems have eq: "map embedding (drop validIndex dat) =
                                emb t # map emb (List.map_filter valid_text rest)"
      by simp
    then obtain d ds where dr: "drop validIndex dat = d # ds" and d: "embedding d = emb t"
      and ds: "map embedding ds = map emb (List.map_filter valid_text rest)"
      by (cases "drop validIndex dat") auto
    from dr have lt: "validIndex < length dat"
      by (metis drop_all linorder_not_less list.distinct(1))
    from dr have nth: "dat ! validIndex = d" by (rule nth_via_drop)
    have "drop (validIndex + 1) dat = ds"
      using dr by (metis Suc_eq_plus1 drop_Suc list.sel(3) tl_drop)
    with ds have "map embedding (drop (validIndex + 1) dat) =
                    map emb (List.map_filter valid_text rest)"
      by simp
    from Cons.IH [OF this] Some lt nth d show ?thesis by (simp add: place_def)
  qed
qed

lemma process_batch_batch_ok:
  assumes "List.map_filter valid_text batch \<noteq> []"
    and "fst (srv (server_state w) (mk_request p (Many (List.map_filter valid_text batch)))) =
           Inr resp"
    and "map embedding (data resp) = map emb (List.map_filter valid_text batch)"
  shows "fst (process_batch p srv batch results w) = results @ map (place emb) batch"
proof -
  from assms(3) have "map embedding (drop 0 (data resp)) =
                        map emb (List.map_filter valid_text batch)"
    by simp
  from map_back_served [OF this]
  have mb: "map_back batch (data resp) 0 results = (results @ map (place emb) batch, None)" .
  let ?req = "mk_request p (Many (List.map_filter valid_text batch))"
  obtain outc w1 where ewr: "embeddingWithRetry srv ?req w = (outc, w1)"
    by (cases "embeddingWithRetry srv ?req w")
  with assms(2) have outc: "outc = Inr resp"
    by (auto simp: embeddingWithRetry_def Let_def split: prod.splits)
  show ?thesis
    using assms(1) ewr outc mb by (simp add: process_batch_def)
qed

lemma process_batch_fallback_ok:
  assumes "List.map_filter valid_text batch \<noteq> []"
    and "fst (srv (server_state w) (mk_request p (Many (List.map_filter valid_text batch)))) =
           Inl err"
    and "list_all (served emb)
           (drop (Suc (length (exchanges w)))
              (exchanges (snd (process_batch p srv batch results w))))"
  shows "fst (process_batch p srv batch results w) = results @ map (place emb) batch"
proof -
  let ?req = "mk_request p (Many (List.map_filter valid_text batch))"
  obtain outc w1 where ewr: "embeddingWithRetry srv ?req w = (outc, w1)"
    by (cases "embeddingWithRetry srv ?req w")
  with assms(2) have outc: "outc = Inl err"
    by (auto simp: embeddingWithRetry_def Let_def split: prod.splits)
  have w1: "exchanges w1 = exchanges w @ [(?req, outc)]"
    using embeddingWithRetry_world(1) [of srv ?req w] ewr by simp
  have pb: "process_batch p srv batch results w = fallback p srv batch results w1"
    using assms(1) ewr outc by (simp add: process_batch_def)
  have "length (exchanges w1) = Suc (length (exchanges w))" using w1 by simp
  with assms(3) have "list_all (served emb)
      (drop (length (exchanges w1)) (exchanges (snd (fallback p srv batch results w1))))"
    unfolding pb by simp
  from fallback_served [OF this] show ?thesis unfolding pb .
qed

subsection \<open>Alignment of the result with the input\<close>

lemma chunk_loop_diverges:
  assumes "batchSize p \<le> 0" and "i < int (length docs)"
  shows "chunk_loop p srv docs i results w = None"
proof (cases "chunk_loop p srv docs i results w")
  case None
  then show ?thesis .
next
  case (Some y)
  from chunk_loop_never_returns [OF this] assms show ?thesis by simp
qed

text \<open>
  C1, as amended. For a list of N documents, N at least 1, a batch size of at least 1
  and a client that was constructed, \<open>embedDocuments\<close> returns a list, whatever the
  endpoint does, request by request. When every batched request that succeeded came
  back with an entry for each text submitted, that list has exactly N elements and
  its i-th element corresponds to the i-th document: the empty array for a blank
  document; for a document with text, an embedding that an exchange of this call
  returned for that text, or the empty array after the request for that text alone
  threw or came back empty.
\<close>

theorem embedDocuments_aligned:
  assumes "docs \<noteq> []" and "1 \<le> batchSize p" and "new_client (client_fields_of p) = None"
  shows "\<exists>results w' new.
           embedDocuments p new_client srv (Some docs) w = Some (Inr results, w') \<and>
           exchanges w' = exchanges w @ new \<and>
           (list_all complete new \<longrightarrow>
              length results = length docs \<and>
              (\<forall>i < length docs. aligned new (docs ! i) (results ! i)))"
proof -
  from chunk_loop_aligned [OF assms(2), of srv docs w]
  obtain results w' new where r: "chunk_loop p srv docs 0 [] w = Some (results, w')"
    and ex: "exchanges w' = exchanges w @ new"
    and al: "list_all complete new \<longrightarrow> list_all2 (aligned new) docs results"
    by blast
  have "embedDocuments p new_client srv (Some docs) w = Some (Inr results, w')"
    using assms(1,3) r by (simp add: embedDocuments_def)
  moreover have "length results = length docs \<and>
                 (\<forall>i < length docs. aligned new (docs ! i) (results ! i))"
    if "list_all complete new"
    using al that by (simp add: list_all2_conv_all_nth)
  ultimately show ?thesis using ex by blast
qed

text \<open>
  The theorem at the documents hello, empty, world with batch size 2 and an endpoint
  that answers every request in full: the two exchanges of the run are complete, so
  the result has three elements, each corresponding to its document.
\<close>

theorem embedDocuments_aligned_witness:
  "\<exists>results w'.
     embedDocuments (example_provider keyed_credentials 2) constructed (echo_server emb_length)
       (Some [Some ''hello'', Some [], Some ''world'']) fresh = Some (Inr results, w') \<and>
     list_all complete (exchanges w') \<and>
     length results = 3 \<and>
     aligned (exchanges w') (Some ''hello'') (results ! 0) \<and>
     aligned (exchanges w') (Some []) (results ! 1) \<and>
     aligned (exchanges w') (Some ''world'') (results ! 2)"
proof -
  let ?p = "example_provider keyed_credentials 2"
  let ?docs = "[Some ''hello'', Some [], Some ''world'']"
  have run: "map_option (exchanges \<circ> snd)
               (embedDocuments ?p constructed (echo_server emb_length) (Some ?docs) fresh) =
             Some [(mk_request ?p (Many [''hello'']), Inr \<lparr>data = [\<lparr>embedding = Vec [5]\<rparr>]\<rparr>),
                   (mk_request ?p (Many [''world'']), Inr \<lparr>data = [\<lparr>embedding = Vec [5]\<rparr>]\<rparr>)]"
    by code_simp
  from embedDocuments_aligned [of ?docs ?p constructed "echo_server emb_length" fresh]
  obtain results w' new where
    r: "embedDocuments ?p constructed (echo_server emb_length) (Some ?docs) fresh =
          Some (Inr results, w')"
    and ex: "exchanges w' = exchanges fresh @ new"
    and al: "list_all complete new \<longrightarrow>
               length results = length ?docs \<and>
               (\<forall>i < length ?docs. aligned new (?docs ! i) (results ! i))"
    by (auto simp: example_provider_def constructed_def)
  have new: "exchanges w' = new" using ex by (simp add: fresh_def)
  from run r have "exchanges w' =
      [(mk_request ?p (Many [''hello'']), Inr \<lparr>data = [\<lparr>embedding = Vec [5]\<rparr>]\<rparr>),
       (mk_request ?p (Many [''world'']), Inr \<lparr>data = [\<lparr>embedding = Vec [5]\<rparr>]\<rparr>)]"
    by simp
  then have c: "list_all complete (exchanges w')"
    by (simp add: complete_def mk_request_def)
  with al new have len: "length results = 3"
    and al3: "\<forall>i < 3. aligned (exchanges w') (?docs ! i) (results ! i)"
    by simp_all
  from al3 [rule_format, of 0] have a0: "aligned (exchanges w') (Some ''hello'') (results ! 0)"
    by simp
  from al3 [rule_format, of 1] have a1: "aligned (exchanges w') (Some []) (results ! 1)"
    by simp
  from al3 [rule_format, of 2] have a2: "aligned (exchanges w') (Some ''world'') (results ! 2)"
    by simp
  note len a0 a1 a2
  with r c show ?thesis by blast
qed

text \<open>
  The claim as stated fails in three ways. With batch size 0 the call never returns.
  When the endpoint answers the batch \<open>[a]\<close> of the chunk \<open>[empty, a]\<close> with an empty
  \<open>data\<close> array, the mapping loop has pushed the placeholder of the first document
  when it throws, the fallback loop pushes both documents again, and the result has
  three elements for two documents. When the client cannot be constructed the call
  raises.
\<close>

theorem embedDocuments_alignment_counterexample:
  "embedDocuments (example_provider keyed_credentials 0) constructed (echo_server emb_length)
     (Some [Some ''a'']) fresh = None \<and>
   map_option fst
     (embedDocuments (example_provider keyed_credentials 2) constructed (short_server emb_length)
        (Some [Some [], Some ''a'']) fresh) = Some (Inr [Vec [], Vec [], Vec [1]]) \<and>
   map_option fst
     (embedDocuments (example_provider local_credentials 2) key_required (echo_server emb_length)
        (Some [Some ''a'']) fresh) =
     Some (Inl (DocumentEmbeddingsError ''OpenAI or Azure OpenAI API key not found''))"
proof (intro conjI)
  have "chunk_loop (example_provider keyed_credentials 0) (echo_server emb_length)
          [Some ''a''] 0 [] fresh = None"
    by (rule chunk_loop_diverges) (simp_all add: example_provider_def)
  then show "embedDocuments (example_provider keyed_credentials 0) constructed
               (echo_server emb_length) (Some [Some ''a'']) fresh = None"
    by (simp add: embedDocuments_def constructed_def)
  show "map_option fst
     (embedDocuments (example_provider keyed_credentials 2) constructed (short_server emb_length)
        (Some [Some [], Some ''a'']) fresh) = Some (Inr [Vec [], Vec [], Vec [1]])"
    by code_simp
  show "map_option fst
     (embedDocuments (example_provider local_credentials 2) key_required (echo_server emb_length)
        (Some [Some ''a'']) fresh) =
     Some (Inl (DocumentEmbeddingsError ''OpenAI or Azure OpenAI API key not found''))"
    by code_simp
qed

subsection \<open>The chunk loop\<close>

lemma ceil_div_bounds:
  fixes n b :: nat
  assumes "0 < b" and "0 < n"
  shows "((n + b - 1) div b - 1) * b < n" and "n \<le> ((n + b - 1) div b) * b"
proof -
  let ?m = "(n + b - 1) div b"
  have up: "n + b - 1 < Suc ?m * b"
    using assms(1) by (metis dividend_less_div_times mult.commute mult_Suc)
  then show "n \<le> ?m * b" using assms(1) by simp
  have "0 < ?m" using assms by (simp add: div_greater_zero_iff)
  then obtain k where k: "?m = Suc k" by (cases ?m) simp_all
  have "?m * b \<le> n + b - 1" by simp
  then have "k * b + b \<le> n + b - 1" unfolding k by simp
  then have "k * b < n" using assms by linarith
  then show "(?m - 1) * b < n" unfolding k by simp
qed

text \<open>
  C9. \<open>embedDocuments\<close> starts the loop at index 0 with no results. For a non-empty list
  of N documents and a batch size B of at least 1 the loop ends, whatever the endpoint
  does, and the chunks it has taken are exactly the chunks number 0, 1, ..., m - 1 of
  size B of the list, where m is N divided by B and rounded up (the least m with
  \<open>N \<le> m * B\<close>): chunk j holds the documents from \<open>j * B\<close> up to \<open>(j + 1) * B\<close>, no chunk
  is empty or longer than B, and the chunks in order make up the list. For a batch
  size of 0 or less the loop never ends, and neither does \<open>embedDocuments\<close>.
\<close>

theorem chunk_loop_terminates_iff_positive_batch:
  fixes w :: "('s, 'n) world"
  shows
    "(docs \<noteq> [] \<and> 1 \<le> batchSize p \<longrightarrow>
        (\<exists>results w'.
           chunk_loop p srv docs 0 [] w = Some (results, w') \<and>
           batches w' = batches w @
             map (chunk_at docs (nat (batchSize p)))
               [0..<(length docs + nat (batchSize p) - 1) div nat (batchSize p)]) \<and>
        ((length docs + nat (batchSize p) - 1) div nat (batchSize p) - 1) * nat (batchSize p)
           < length docs \<and>
        length docs \<le>
          ((length docs + nat (batchSize p) - 1) div nat (batchSize p)) * nat (batchSize p) \<and>
        concat (map (chunk_at docs (nat (batchSize p)))
                 [0..<(length docs + nat (batchSize p) - 1) div nat (batchSize p)]) = docs \<and>
        (\<forall>j < (length docs + nat (batchSize p) - 1) div nat (batchSize p).
           chunk_at docs (nat (batchSize p)) j \<noteq> [] \<and>
           length (chunk_at docs (nat (batchSize p)) j) \<le> nat (batchSize p))) \<and>
     (docs \<noteq> [] \<and> batchSize p \<le> 0 \<longrightarrow>
        chunk_loop p srv docs 0 [] w = None \<and>
        (new_client (client_fields_of p) = None \<longrightarrow>
           embedDocuments p new_client srv (Some docs) w = None))"
proof (intro conjI impI)
  assume a: "docs \<noteq> [] \<and> 1 \<le> batchSize p"
  then have b: "0 < nat (batchSize p)" and n: "0 < length docs" by simp_all
  from a show "\<exists>results w'.
           chunk_loop p srv docs 0 [] w = Some (results, w') \<and>
           batches w' = batches w @
             map (chunk_at docs (nat (batchSize p)))
               [0..<(length docs + nat (batchSize p) - 1) div nat (batchSize p)]"
    using chunk_loop_batches [of p srv docs "[]" w] by simp
  show "((length docs + nat (batchSize p) - 1) div nat (batchSize p) - 1) * nat (batchSize p)
           < length docs"
    using b n by (rule ceil_div_bounds)
  show "length docs \<le>
          ((length docs + nat (batchSize p) - 1) div nat (batchSize p)) * nat (batchSize p)"
    using b n by (rule ceil_div_bounds)
  show "concat (map (chunk_at docs (nat (batchSize p)))
                 [0..<(length docs + nat (batchSize p) - 1) div nat (batchSize p)]) = docs"
    using b by (rule chunks_cover)
  show "\<forall>j < (length docs + nat (batchSize p) - 1) div nat (batchSize p).
           chunk_at docs (nat (batchSize p)) j \<noteq> [] \<and>
           length (chunk_at docs (nat (batchSize p)) j) \<le> nat (batchSize p)"
    using chunk_at_bounds [OF b] by blast
next
  assume a: "docs \<noteq> [] \<and> batchSize p \<le> 0"
  then show d: "chunk_loop p srv docs 0 [] w = None"
    by (intro chunk_loop_diverges) simp_all
  assume "new_client (client_fields_of p) = None"
  with a d show "embedDocuments p new_client srv (Some docs) w = None"
    by (simp add: embedDocuments_def)
qed

text \<open>
  The theorem at three documents: with batch size 2 the loop ends after the two chunks
  \<open>[hello, empty]\<close> and \<open>[world]\<close>; with batch size 0 it never ends.
\<close>

theorem chunk_loop_terminates_iff_positive_batch_witness:
  "(\<exists>results w'.
      chunk_loop (example_provider keyed_credentials 2) (down_server :: (unit, nat) server)
        [Some ''hello'', Some [], Some ''world''] 0 [] fresh = Some (results, w') \<and>
      batches w' = [[Some ''hello'', Some []], [Some ''world'']]) \<and>
   chunk_loop (example_provider keyed_credentials 0) (down_server :: (unit, nat) server)
     [Some ''hello'', Some [], Some ''world''] 0 [] fresh = None"
proof -
  let ?docs = "[Some ''hello'', Some [], Some ''world'']"
  have two: "batchSize (example_provider keyed_credentials 2) = 2"
    and zero: "batchSize (example_provider keyed_credentials 0) = 0"
    by (simp_all add: example_provider_def)
  have m: "(length ?docs + nat 2 - 1) div nat 2 = 2" by simp
  have cs: "map (chunk_at ?docs (nat 2)) [0..<2] = [[Some ''hello'', Some []], [Some ''world'']]"
    by (simp add: chunk_at_def upt_rec)
  from chunk_loop_terminates_iff_positive_batch
         [of ?docs "example_provider keyed_credentials 2" down_server fresh constructed]
  have "\<exists>results w'.
      chunk_loop (example_provider keyed_credentials 2) (down_server :: (unit, nat) server)
        ?docs 0 [] fresh = Some (results, w') \<and>
      batches w' = [[Some ''hello'', Some []], [Some ''world'']]"
    unfolding two m cs by (simp add: fresh_def)
  moreover
  from chunk_loop_terminates_iff_positive_batch
         [of ?docs "example_provider keyed_credentials 0" down_server fresh constructed]
  have "chunk_loop (example_provider keyed_credentials 0) (down_server :: (unit, nat) server)
          ?docs 0 [] fresh = None"
    unfolding zero by simp
  ultimately show ?thesis by blast
qed

subsection \<open>Blank documents\<close>

lemma trim_empty_iff: "trim s = [] \<longleftrightarrow> (\<forall>c \<in> set s. js_whitespace c)"
proof
  assume "trim s = []"
  then have "dropWhile js_whitespace (rev (dropWhile js_whitespace s)) = []"
    by (simp add: trim_def)
  then have all: "\<forall>c \<in> set (dropWhile js_whitespace s). js_whitespace c"
    by (simp add: dropWhile_eq_Nil_conv)
  have "dropWhile js_whitespace s = []"
  proof (rule ccontr)
    assume ne: "dropWhile js_whitespace s \<noteq> []"
    then have "\<not> js_whitespace (hd (dropWhile js_whitespace s))"
      by (rule hd_dropWhile)
    moreover have "hd (dropWhile js_whitespace s) \<in> set (dropWhile js_whitespace s)"
      using ne by simp
    ultimately show False using all by blast
  qed
  then show "\<forall>c \<in> set s. js_whitespace c"
    by (simp add: dropWhile_eq_Nil_conv)
next
  assume "\<forall>c \<in> set s. js_whitespace c"
  then have d: "dropWhile js_whitespace s = []"
    by (simp add: dropWhile_eq_Nil_conv)
  show "trim s = []" unfolding trim_def d by simp
qed

lemma valid_text_None_iff:
  "valid_text doc = None \<longleftrightarrow>
     doc = None \<or> (\<exists>s. doc = Some s \<and> (\<forall>c \<in> set s. js_whitespace c))"
  by (cases doc) (auto simp: valid_text_def trim_empty_iff)

text \<open>
  C5, as amended. For a list of N documents, N at least 1, each of them null, empty
  or made of whitespace only, with a batch size of at least 1 and a client that was
  constructed, \<open>embedDocuments\<close> returns N empty arrays and makes no request: the
  exchanges and the state of the endpoint are as before the call.
\<close>

theorem embedDocuments_all_blank:
  fixes w :: "('s, 'n) world"
  assumes "docs \<noteq> []"
    and "\<forall>d \<in> set docs. d = None \<or> (\<exists>s. d = Some s \<and> (\<forall>c \<in> set s. js_whitespace c))"
    and "1 \<le> batchSize p"
    and "new_client (client_fields_of p) = None"
  shows "\<exists>w'. embedDocuments p new_client srv (Some docs) w =
                 Some (Inr (replicate (length docs) (Vec [])), w') \<and>
              exchanges w' = exchanges w \<and> server_state w' = server_state w"
proof -
  from assms(2) have "\<forall>d \<in> set docs. valid_text d = None"
    by (simp add: valid_text_None_iff)
  from chunk_loop_blank [OF assms(3) this, of srv w]
  obtain w' where "chunk_loop p srv docs 0 [] w = Some (replicate (length docs) (Vec []), w')"
    and "exchanges w' = exchanges w" and "server_state w' = server_state w"
    by blast
  with assms(1,4) show ?thesis by (simp add: embedDocuments_def)
qed

text \<open>
  The theorem at the documents null, empty, two spaces, tab and line feed, with batch
  size 2 and an endpoint that would answer: three empty arrays, no exchange.
\<close>

theorem embedDocuments_all_blank_witness:
  "\<exists>w'. embedDocuments (example_provider keyed_credentials 2) constructed
           (echo_server emb_length)
           (Some [None, Some [], Some [CHR '' '', CHR '' ''], Some [CHR 0x09, CHR 0x0A]]) fresh =
           Some (Inr [Vec [], Vec [], Vec [], Vec []], w') \<and>
         exchanges w' = []"
  using embedDocuments_all_blank
          [of "[None, Some [], Some [CHR '' '', CHR '' ''], Some [CHR 0x09, CHR 0x0A]]"
              "example_provider keyed_credentials 2" constructed "echo_server emb_length" fresh]
  by (simp add: example_provider_def constructed_def js_whitespace_def fresh_def
                numeral_eq_Suc)

text \<open>
  The claim as stated fails in three ways: on the empty list, all of whose items are
  blank, the call raises instead of returning the empty list; with batch size 0 it
  never returns; when the client cannot be constructed it raises.
\<close>

theorem embedDocuments_all_blank_counterexample:
  "embedDocuments (example_provider keyed_credentials 2) constructed (echo_server emb_length)
     (Some []) fresh = Some (Inl NoDocuments, fresh) \<and>
   embedDocuments (example_provider keyed_credentials 0) constructed (echo_server emb_length)
     (Some [Some []]) fresh = None \<and>
   embedDocuments (example_provider local_credentials 2) key_required (echo_server emb_length)
     (Some [Some []]) fresh =
     Some (Inl (DocumentEmbeddingsError ''OpenAI or Azure OpenAI API key not found''), fresh)"
proof (intro conjI)
  show "embedDocuments (example_provider keyed_credentials 2) constructed
          (echo_server emb_length) (Some []) fresh = Some (Inl NoDocuments, fresh)"
    by (simp add: embedDocuments_def)
  have "chunk_loop (example_provider keyed_credentials 0) (echo_server emb_length)
          [Some []] 0 [] fresh = None"
    by (rule chunk_loop_diverges) (simp_all add: example_provider_def)
  then show "embedDocuments (example_provider keyed_credentials 0) constructed
               (echo_server emb_length) (Some [Some []]) fresh = None"
    by (simp add: embedDocuments_def constructed_def)
  show "embedDocuments (example_provider local_credentials 2) key_required
          (echo_server emb_length) (Some [Some []]) fresh =
        Some (Inl (DocumentEmbeddingsError ''OpenAI or Azure OpenAI API key not found''), fresh)"
    by (simp add: embedDocuments_def key_required_def client_fields_of_def
                  example_provider_def local_credentials_def)
qed

subsection \<open>When embedDocuments raises\<close>

lemma embedDocuments_raises_iff:
  "(\<exists>e w'. embedDocuments p new_client srv documents w = Some (Inl e, w')) \<longleftrightarrow>
     documents = None \<or> documents = Some [] \<or> new_client (client_fields_of p) \<noteq> None"
  by (auto simp: embedDocuments_def split: option.splits)

lemma embedDocuments_raised:
  assumes "embedDocuments p new_client srv documents w = Some (Inl e, w')"
  shows "w' = w \<and>
         (e = NoDocuments \<or>
          (\<exists>err. new_client (client_fields_of p) = Some err \<and>
                 e = DocumentEmbeddingsError (message err)))"
  using assms by (auto simp: embedDocuments_def split: option.splits if_splits)

lemma aligned_all_thrown:
  assumes "aligned new doc e" and "valid_text doc = Some t"
    and "\<forall>x \<in> set new. t \<in> set (texts (input (fst x))) \<longrightarrow> isl (snd x)"
  shows "e = Vec []"
proof (rule ccontr)
  assume "e \<noteq> Vec []"
  with assms(1,2) have "list_ex (answers t e) new" by (simp add: aligned_def)
  then obtain x where x: "x \<in> set new" and a: "answers t e x" by (auto simp: list_ex_iff)
  obtain req outc where xe: "x = (req, outc)" by (cases x)
  from a xe obtain resp where outc: "outc = Inr resp"
    and z: "(t, e) \<in> set (zip (texts (input req)) (map embedding (data resp)))"
    by (auto simp: answers_def split: sum.splits)
  from z have "t \<in> set (texts (input req))" by (rule set_zip_leftD)
  with assms(3) x xe have "isl outc" by auto
  with outc show False by simp
qed

text \<open>
  C2, as amended. \<open>embedDocuments\<close> raises exactly when the list is null or empty or
  the client cannot be constructed, and then before any request: the world is
  unchanged and the error is "No documents provided" or the constructor's message,
  wrapped. Otherwise, with a batch size of at least 1, no request that fails makes it
  raise: it returns a list whatever the endpoint does on any request, and every chunk
  of the list has been processed. For the positions: when the batched requests that
  succeeded were answered in full, the result has one element per document, and a
  document all of whose requests threw (each request of the call that carried its
  text) has the empty array at its position.
\<close>

theorem embedDocuments_raises_only_before_chunks:
  fixes w :: "('s, 'n) world"
  shows
    "((\<exists>e w'. embedDocuments p new_client srv documents w = Some (Inl e, w')) \<longleftrightarrow>
        documents = None \<or> documents = Some [] \<or> new_client (client_fields_of p) \<noteq> None) \<and>
     (\<forall>e w'. embedDocuments p new_client srv documents w = Some (Inl e, w') \<longrightarrow>
        w' = w \<and>
        (e = NoDocuments \<or>
         (\<exists>err. new_client (client_fields_of p) = Some err \<and>
                e = DocumentEmbeddingsError (message err)))) \<and>
     (\<forall>docs. documents = Some docs \<and> docs \<noteq> [] \<and>
             new_client (client_fields_of p) = None \<and> 1 \<le> batchSize p \<longrightarrow>
        (\<exists>results w' new.
           embedDocuments p new_client srv documents w = Some (Inr results, w') \<and>
           exchanges w' = exchanges w @ new \<and>
           batches w' = batches w @
             map (chunk_at docs (nat (batchSize p)))
               [0..<(length docs + nat (batchSize p) - 1) div nat (batchSize p)] \<and>
           (list_all complete new \<longrightarrow>
              length results = length docs \<and>
              (\<forall>i < length docs. \<forall>t.
                 valid_text (docs ! i) = Some t \<and>
                 (\<forall>x \<in> set new. t \<in> set (texts (input (fst x))) \<longrightarrow> isl (snd x)) \<longrightarrow>
                 results ! i = Vec []))))"
proof (intro conjI allI impI)
  show "(\<exists>e w'. embedDocuments p new_client srv documents w = Some (Inl e, w')) \<longleftrightarrow>
        documents = None \<or> documents = Some [] \<or> new_client (client_fields_of p) \<noteq> None"
    by (rule embedDocuments_raises_iff)
next
  fix e w'
  assume "embedDocuments p new_client srv documents w = Some (Inl e, w')"
  from embedDocuments_raised [OF this]
  show "w' = w" and "e = NoDocuments \<or>
         (\<exists>err. new_client (client_fields_of p) = Some err \<and>
                e = DocumentEmbeddingsError (message err))"
    by simp_all
next
  fix docs
  assume a: "documents = Some docs \<and> docs \<noteq> [] \<and>
             new_client (client_fields_of p) = None \<and> 1 \<le> batchSize p"
  then have B: "1 \<le> batchSize p" by simp
  from chunk_loop_aligned [OF B, of srv docs w]
  obtain results w' new where r: "chunk_loop p srv docs 0 [] w = Some (results, w')"
    and ex: "exchanges w' = exchanges w @ new"
    and al: "list_all complete new \<longrightarrow> list_all2 (aligned new) docs results"
    by blast
  from chunk_loop_batches [OF B, of srv docs "[]" w] r
  have bs: "batches w' = batches w @
             map (chunk_at docs (nat (batchSize p)))
               [0..<(length docs + nat (batchSize p) - 1) div nat (batchSize p)]"
    by simp
  have ret: "embedDocuments p new_client srv documents w = Some (Inr results, w')"
    using a r by (simp add: embedDocuments_def)
  have pos: "length results = length docs \<and>
              (\<forall>i < length docs. \<forall>t.
                 valid_text (docs ! i) = Some t \<and>
                 (\<forall>x \<in> set new. t \<in> set (texts (input (fst x))) \<longrightarrow> isl (snd x)) \<longrightarrow>
                 results ! i = Vec [])"
    if c: "list_all complete new"
  proof -
    from al c have l2: "list_all2 (aligned new) docs results" by simp
    then have len: "length results = length docs" by (simp add: list_all2_lengthD)
    have "results ! i = Vec []"
      if "i < length docs" and "valid_text (docs ! i) = Some t"
        and "\<forall>x \<in> set new. t \<in> set (texts (input (fst x))) \<longrightarrow> isl (snd x)" for i t
    proof -
      from l2 that(1) have "aligned new (docs ! i) (results ! i)"
        by (simp add: list_all2_conv_all_nth)
      from aligned_all_thrown [OF this that(2,3)] show ?thesis .
    qed
    with len show ?thesis by blast
  qed
  from ret ex bs pos
  show "\<exists>results w' new.
           embedDocuments p new_client srv documents w = Some (Inr results, w') \<and>
           exchanges w' = exchanges w @ new \<and>
           batches w' = batches w @
             map (chunk_at docs (nat (batchSize p)))
               [0..<(length docs + nat (batchSize p) - 1) div nat (batchSize p)] \<and>
           (list_all complete new \<longrightarrow>
              length results = length docs \<and>
              (\<forall>i < length docs. \<forall>t.
                 valid_text (docs ! i) = Some t \<and>
                 (\<forall>x \<in> set new. t \<in> set (texts (input (fst x))) \<longrightarrow> isl (snd x)) \<longrightarrow>
                 results ! i = Vec []))"
    by blast
qed

text \<open>
  The theorem at the documents hello, empty, world with batch size 2 and an endpoint
  that is down: no error is raised, both chunks are processed, all four requests
  threw, and the result is three empty arrays. At the null list the call raises.
\<close>

theorem embedDocuments_raises_only_before_chunks_witness:
  "(\<exists>results w'.
      embedDocuments (example_provider keyed_credentials 2) constructed down_server
        (Some [Some ''hello'', Some [], Some ''world'']) fresh = Some (Inr results, w') \<and>
      batches w' = [[Some ''hello'', Some []], [Some ''world'']] \<and>
      length (exchanges w') = 4 \<and>
      length results = 3 \<and> results ! 0 = Vec [] \<and> results ! 2 = Vec []) \<and>
   (\<exists>e w'. embedDocuments (example_provider keyed_credentials 2) constructed
              (down_server :: (unit, nat) server) None fresh = Some (Inl e, w'))"
proof -
  let ?p = "example_provider keyed_credentials 2"
  let ?docs = "[Some ''hello'', Some [], Some ''world'']"
  let ?ex = "[(mk_request ?p (Many [''hello'']), Inl (JsError ''ECONNREFUSED'')),
              (mk_request ?p (Single ''hello''), Inl (JsError ''ECONNREFUSED'')),
              (mk_request ?p (Many [''world'']), Inl (JsError ''ECONNREFUSED'')),
              (mk_request ?p (Single ''world''), Inl (JsError ''ECONNREFUSED''))]
             :: (request \<times> nat outcome) list"
  have run: "map_option (exchanges \<circ> snd)
               (embedDocuments ?p constructed down_server (Some ?docs) fresh) = Some ?ex"
    by code_simp
  have two: "batchSize ?p = 2" by (simp add: example_provider_def)
  have m: "(length ?docs + nat 2 - 1) div nat 2 = 2" by simp
  have cs: "map (chunk_at ?docs (nat 2)) [0..<2] = [[Some ''hello'', Some []], [Some ''world'']]"
    by (simp add: chunk_at_def upt_rec)
  have vt: "valid_text (Some ''hello'') = Some ''hello''"
           "valid_text (Some ''world'') = Some ''world''"
    by code_simp+
  note inst = embedDocuments_raises_only_before_chunks
               [of ?p constructed down_server _ fresh]
  have hyp: "Some ?docs = Some ?docs \<and> ?docs \<noteq> [] \<and>
             constructed (client_fields_of ?p) = None \<and> 1 \<le> batchSize ?p"
    by (simp add: constructed_def two)
  from inst [of "Some ?docs", THEN conjunct2, THEN conjunct2, rule_format, OF hyp]
  obtain results w' new where
    r: "embedDocuments ?p constructed down_server (Some ?docs) fresh = Some (Inr results, w')"
    and ex: "exchanges w' = exchanges fresh @ new"
    and bs0: "batches w' = batches fresh @
                map (chunk_at ?docs (nat (batchSize ?p)))
                  [0..<(length ?docs + nat (batchSize ?p) - 1) div nat (batchSize ?p)]"
    and pos: "list_all complete new \<longrightarrow>
              length results = length ?docs \<and>
              (\<forall>i < length ?docs. \<forall>t.
                 valid_text (?docs ! i) = Some t \<and>
                 (\<forall>x \<in> set new. t \<in> set (texts (input (fst x))) \<longrightarrow> isl (snd x)) \<longrightarrow>
                 results ! i = Vec [])"
    by blast
  from bs0 have bs: "batches w' = batches fresh @ [[Some ''hello'', Some []], [Some ''world'']]"
    unfolding two m cs .
  from run r ex have new: "new = ?ex" "exchanges w' = ?ex" by (simp_all add: fresh_def)
  have c: "list_all complete new" unfolding new by (simp add: complete_def)
  have thrown: "\<forall>x \<in> set new. t \<in> set (texts (input (fst x))) \<longrightarrow> isl (snd x)" for t
    unfolding new by simp
  from pos c have len: "length results = 3"
    and p: "\<forall>i < 3. \<forall>t.
                 valid_text (?docs ! i) = Some t \<and>
                 (\<forall>x \<in> set new. t \<in> set (texts (input (fst x))) \<longrightarrow> isl (snd x)) \<longrightarrow>
                 results ! i = Vec []"
    by simp_all
  from p [rule_format, of 0 "''hello''"] vt thrown have r0: "results ! 0 = Vec []" by simp
  from p [rule_format, of 2 "''world''"] vt thrown have r2: "results ! 2 = Vec []" by simp
  have "length (exchanges w') = 4" unfolding new by simp
  with r bs len r0 r2 have first: "\<exists>results w'.
      embedDocuments ?p constructed down_server (Some ?docs) fresh = Some (Inr results, w') \<and>
      batches w' = [[Some ''hello'', Some []], [Some ''world'']] \<and>
      length (exchanges w') = 4 \<and>
      length results = 3 \<and> results ! 0 = Vec [] \<and> results ! 2 = Vec []"
    by (simp add: fresh_def)
  from inst [of None]
  have "\<exists>e w'. embedDocuments ?p constructed (down_server :: (unit, nat) server) None fresh =
                  Some (Inl e, w')"
    by simp
  with first show ?thesis by blast
qed

text \<open>
  The claim as stated fails in two ways. With batch size -1 and an endpoint that is
  down, the first chunk of \<open>[a, b]\<close> is \<open>[a]\<close>, every later chunk is empty, and the call
  never returns: \<open>b\<close> is never processed. With batch size 2 on \<open>[empty, a, b]\<close>, when the
  batch \<open>[a]\<close> is answered with an empty \<open>data\<close> array and both requests for \<open>b\<close> throw,
  the result has four elements and the position of \<open>b\<close>, index 2, holds the embedding
  of \<open>a\<close> instead of the empty array.
\<close>

theorem embedDocuments_raises_only_before_chunks_counterexample:
  "embedDocuments (example_provider keyed_credentials (- 1)) constructed down_server
     (Some [Some ''a'', Some ''b'']) fresh = None \<and>
   map_option fst
     (embedDocuments (example_provider keyed_credentials 2) constructed
        (a_only_server emb_length) (Some [Some [], Some ''a'', Some ''b'']) fresh) =
     Some (Inr [Vec [], Vec [], Vec [1], Vec []])"
proof (intro conjI)
  have "chunk_loop (example_provider keyed_credentials (- 1)) down_server
          [Some ''a'', Some ''b''] 0 [] fresh = None"
    by (rule chunk_loop_diverges) (simp_all add: example_provider_def)
  then show "embedDocuments (example_provider keyed_credentials (- 1)) constructed down_server
               (Some [Some ''a'', Some ''b'']) fresh = None"
    by (simp add: embedDocuments_def constructed_def)
  show "map_option fst
     (embedDocuments (example_provider keyed_credentials 2) constructed
        (a_only_server emb_length) (Some [Some [], Some ''a'', Some ''b'']) fresh) =
     Some (Inr [Vec [], Vec [], Vec [1], Vec []])"
    by code_simp
qed

subsection \<open>Fallback against a successful batch\<close>

text \<open>
  C4. Take a chunk with at least one document that is not blank, and any function
  \<open>emb\<close> from texts to embeddings. In one run the batched request for the chunk's
  texts succeeds, its entries the embeddings of the texts in order. In another run
  the batched request throws, and every request made after it, one per text,
  succeeds with the embedding of its text as first entry. Then both runs append the
  same portion to the results, element by element: one element per document of the
  chunk, the empty array for a blank one and the embedding of its text otherwise.
\<close>

theorem fallback_portion_equals_batch_portion:
  assumes "List.map_filter valid_text batch \<noteq> []"
    and "fst (srvA (server_state wA)
                (mk_request p (Many (List.map_filter valid_text batch)))) = Inr resp"
    and "map embedding (data resp) = map emb (List.map_filter valid_text batch)"
    and "fst (srvB (server_state wB)
                (mk_request p (Many (List.map_filter valid_text batch)))) = Inl err"
    and "list_all (served emb)
           (drop (Suc (length (exchanges wB)))
              (exchanges (snd (process_batch p srvB batch resultsB wB))))"
  shows "\<exists>portion.
           fst (process_batch p srvA batch resultsA wA) = resultsA @ portion \<and>
           fst (process_batch p srvB batch resultsB wB) = resultsB @ portion \<and>
           length portion = length batch \<and>
           (\<forall>k < length batch. portion ! k = place emb (batch ! k))"
proof -
  have "fst (process_batch p srvA batch resultsA wA) = resultsA @ map (place emb) batch"
    using assms(1,2,3) by (rule process_batch_batch_ok)
  moreover
  have "fst (process_batch p srvB batch resultsB wB) = resultsB @ map (place emb) batch"
    using assms(1,4,5) by (rule process_batch_fallback_ok)
  ultimately show ?thesis
    by (intro exI [of _ "map (place emb) batch"]) simp
qed

text \<open>
  The theorem at the chunk \<open>[hello, empty]\<close>: an endpoint that answers the batch, and
  one that rejects every batch and serves single texts, both give the portion
  \<open>[emb hello, []]\<close>.
\<close>

theorem fallback_portion_equals_batch_portion_witness:
  "fst (process_batch (example_provider keyed_credentials 2) (echo_server emb_length)
          [Some ''hello'', Some []] [] fresh) = [Vec [5], Vec []] \<and>
   fst (process_batch (example_provider keyed_credentials 2) (single_only_server emb_length)
          [Some ''hello'', Some []] [] fresh) = [Vec [5], Vec []]"
proof -
  let ?p = "example_provider keyed_credentials 2"
  let ?batch = "[Some ''hello'', Some []]"
  have v: "List.map_filter valid_text ?batch = [''hello'']" by code_simp
  have h1: "List.map_filter valid_text ?batch \<noteq> []" unfolding v by simp
  have h2: "fst (echo_server emb_length (server_state fresh)
                  (mk_request ?p (Many (List.map_filter valid_text ?batch)))) =
            Inr \<lparr>data = [\<lparr>embedding = emb_length ''hello''\<rparr>]\<rparr>"
    unfolding v by (simp add: echo_server_def mk_request_def)
  have h3: "map embedding (data \<lparr>data = [\<lparr>embedding = emb_length ''hello''\<rparr>]\<rparr>) =
            map emb_length (List.map_filter valid_text ?batch)"
    unfolding v by simp
  have h4: "fst (single_only_server emb_length (server_state fresh)
                  (mk_request ?p (Many (List.map_filter valid_text ?batch)))) =
            Inl (JsError ''400 input must be a string'')"
    unfolding v by (simp add: single_only_server_def mk_request_def)
  have run: "drop (Suc (length (exchanges fresh)))
               (exchanges (snd (process_batch ?p (single_only_server emb_length) ?batch []
                                  fresh))) =
             [(mk_request ?p (Single ''hello''), Inr \<lparr>data = [\<lparr>embedding = Vec [5]\<rparr>]\<rparr>)]"
    by code_simp
  have h5: "list_all (served emb_length)
              (drop (Suc (length (exchanges fresh)))
                 (exchanges (snd (process_batch ?p (single_only_server emb_length) ?batch []
                                    fresh))))"
    unfolding run by (simp add: served_def mk_request_def emb_length_def)
  from fallback_portion_equals_batch_portion
         [where batch = ?batch and p = ?p and emb = emb_length
            and srvA = "echo_server emb_length" and wA = fresh
            and resp = "\<lparr>data = [\<lparr>embedding = emb_length ''hello''\<rparr>]\<rparr>"
            and srvB = "single_only_server emb_length" and wB = fresh
            and err = "JsError ''400 input must be a string''"
            and resultsA = "[]" and resultsB = "[]",
          OF h1 h2 h3 h4 h5]
  obtain portion where
    a: "fst (process_batch ?p (echo_server emb_length) ?batch [] fresh) = [] @ portion"
    and b: "fst (process_batch ?p (single_only_server emb_length) ?batch [] fresh) = [] @ portion"
    and len: "length portion = length ?batch"
    and el: "\<forall>k < length ?batch. portion ! k = place emb_length (?batch ! k)"
    by blast
  have p0: "place emb_length (Some ''hello'') = Vec [5]"
    and p1: "place emb_length (Some []) = Vec []"
    by code_simp+
  from el [rule_format, of 0] p0 have e0: "portion ! 0 = Vec [5]" by simp
  from el [rule_format, of 1] p1 have e1: "portion ! 1 = Vec []" by simp
  from len e0 e1 have "portion = [Vec [5], Vec []]"
    by (cases portion; cases "tl portion") auto
  with a b show ?thesis by simp
qed

subsection \<open>The scenario hello, empty, world\<close>

lemma valid_text_examples:
  "valid_text (Some ''hello'') = Some ''hello''"
  "valid_text (Some []) = None"
  "valid_text (Some ''world'') = Some ''world''"
  by code_simp+

lemma slice_examples:
  "slice [a, b, c] 0 2 = [a, b]"
  "slice [a, b, c] 2 4 = [c]"
  by (simp_all add: slice_def)

text \<open>
  C6. The documents hello, empty, world with batch size 2, a client that was
  constructed and an endpoint that answers every request with the embedding \<open>emb\<close> of
  each text submitted. The loop takes the chunks \<open>[hello, empty]\<close> and \<open>[world]\<close>, makes
  exactly two requests, one per chunk, carrying \<open>[hello]\<close> and \<open>[world]\<close>, and returns
  \<open>[emb hello, [], emb world]\<close>.
\<close>

theorem hello_empty_world_scenario:
  assumes "batchSize p = 2" and "new_client (client_fields_of p) = None"
  shows "\<exists>w'. embedDocuments p new_client (echo_server emb)
                (Some [Some ''hello'', Some [], Some ''world'']) w =
                Some (Inr [emb ''hello'', Vec [], emb ''world''], w') \<and>
              batches w' = batches w @ [[Some ''hello'', Some []], [Some ''world'']] \<and>
              exchanges w' = exchanges w @
                [(mk_request p (Many [''hello'']), Inr \<lparr>data = [\<lparr>embedding = emb ''hello''\<rparr>]\<rparr>),
                 (mk_request p (Many [''world'']), Inr \<lparr>data = [\<lparr>embedding = emb ''world''\<rparr>]\<rparr>)]"
proof -
  let ?docs = "[Some ''hello'', Some [], Some ''world'']"
  let ?c1 = "[Some ''hello'', Some []]"
  let ?c2 = "[Some ''world'']"
  let ?x1 = "(mk_request p (Many [''hello'']), Inr \<lparr>data = [\<lparr>embedding = emb ''hello''\<rparr>]\<rparr>)"
  let ?x2 = "(mk_request p (Many [''world'']), Inr \<lparr>data = [\<lparr>embedding = emb ''world''\<rparr>]\<rparr>)"
  define w1 where "w1 = w\<lparr>batches := batches w @ [?c1]\<rparr>"
  define w2 where "w2 = w1\<lparr>server_state := server_state w1, exchanges := exchanges w1 @ [?x1]\<rparr>"
  define w3 where "w3 = w2\<lparr>batches := batches w2 @ [?c2]\<rparr>"
  define w4 where "w4 = w3\<lparr>server_state := server_state w3, exchanges := exchanges w3 @ [?x2]\<rparr>"
  have pb1: "process_batch p (echo_server emb) ?c1 [] w1 = ([emb ''hello'', Vec []], w2)"
    by (simp add: process_batch_def valid_text_examples embeddingWithRetry_def
                  echo_server_def mk_request_def w2_def)
  have pb2: "process_batch p (echo_server emb) ?c2 [emb ''hello'', Vec []] w3 =
               ([emb ''hello'', Vec [], emb ''world''], w4)"
    by (simp add: process_batch_def valid_text_examples embeddingWithRetry_def
                  echo_server_def mk_request_def w4_def)
  have l3: "chunk_loop p (echo_server emb) ?docs 4 [emb ''hello'', Vec [], emb ''world''] w4 =
              Some ([emb ''hello'', Vec [], emb ''world''], w4)"
    by (subst chunk_loop.simps) simp
  have l2: "chunk_loop p (echo_server emb) ?docs 2 [emb ''hello'', Vec []] w2 =
              Some ([emb ''hello'', Vec [], emb ''world''], w4)"
    by (subst chunk_loop.simps)
       (simp add: assms(1) slice_examples pb2 [unfolded w3_def] l3)
  have l1: "chunk_loop p (echo_server emb) ?docs 0 [] w =
              Some ([emb ''hello'', Vec [], emb ''world''], w4)"
    by (subst chunk_loop.simps)
       (simp add: assms(1) slice_examples pb1 [unfolded w1_def] l2)
  have "embedDocuments p new_client (echo_server emb) (Some ?docs) w =
          Some (Inr [emb ''hello'', Vec [], emb ''world''], w4)"
    using assms(2) l1 by (simp add: embedDocuments_def)
  moreover have "batches w4 = batches w @ [?c1, ?c2]"
    by (simp add: w4_def w3_def w2_def w1_def)
  moreover have "exchanges w4 = exchanges w @ [?x1, ?x2]"
    by (simp add: w4_def w3_def w2_def w1_def)
  ultimately show ?thesis by blast
qed

text \<open>The scenario with the example provider, where the embedding of a text is its length.\<close>

theorem hello_empty_world_scenario_witness:
  "\<exists>w'. embedDocuments (example_provider keyed_credentials 2) constructed
           (echo_server emb_length) (Some [Some ''hello'', Some [], Some ''world'']) fresh =
           Some (Inr [Vec [5], Vec [], Vec [5]], w') \<and>
         batches w' = [[Some ''hello'', Some []], [Some ''world'']] \<and>
         map (input \<circ> fst) (exchanges w') = [Many [''hello''], Many [''world'']]"
proof -
  have "batchSize (example_provider keyed_credentials 2) = 2"
    and "constructed (client_fields_of (example_provider keyed_credentials 2)) = None"
    by (simp_all add: example_provider_def constructed_def)
  from hello_empty_world_scenario
         [where p = "example_provider keyed_credentials 2" and new_client = constructed
            and emb = emb_length and w = fresh, OF this]
  show ?thesis
    by (auto simp: fresh_def emb_length_def mk_request_def)
qed

subsection \<open>embedQuery\<close>

lemma valid_text_None_trim:
  "valid_text text' = None \<longleftrightarrow> text' = None \<or> (\<exists>s. text' = Some s \<and> trim s = [])"
  by (cases text') (auto simp: valid_text_def trim_def)

text \<open>
  C3, as amended. \<open>embedQuery\<close> raises "Text content is empty" exactly when the text
  is null or its trimmed form is empty, and then makes no request. For a text whose
  trimmed form is not empty, once the client has been constructed it makes exactly
  one request, for the model and encoding format of the provider with the text
  itself as input; when that request succeeds with at least one entry the result is
  the \<open>embedding\<close> of the first entry, and a result is never anything else. When the
  constructor throws, no request is made and its error is raised, wrapped.
\<close>

theorem embedQuery_single_request:
  fixes w :: "('s, 'n) world"
  shows
    "(fst (embedQuery p new_client srv text' w) = Inl TextEmpty \<longleftrightarrow>
        text' = None \<or> (\<exists>s. text' = Some s \<and> trim s = [])) \<and>
     (fst (embedQuery p new_client srv text' w) = Inl TextEmpty \<longrightarrow>
        snd (embedQuery p new_client srv text' w) = w) \<and>
     (\<forall>t. text' = Some t \<and> trim t \<noteq> [] \<and> new_client (client_fields_of p) = None \<longrightarrow>
        (\<exists>outc s'.
           srv (server_state w)
             \<lparr>model = p_model p, input = Single t, encoding_format = encodingFormat p\<rparr> =
             (outc, s') \<and>
           snd (embedQuery p new_client srv text' w) =
             w\<lparr>server_state := s',
               exchanges := exchanges w @
                 [(\<lparr>model = p_model p, input = Single t, encoding_format = encodingFormat p\<rparr>,
                   outc)]\<rparr> \<and>
           (\<forall>resp d rest. outc = Inr resp \<and> data resp = d # rest \<longrightarrow>
              fst (embedQuery p new_client srv text' w) = Inr (embedding d)) \<and>
           (\<forall>e. fst (embedQuery p new_client srv text' w) = Inr e \<longrightarrow>
              (\<exists>resp d rest. outc = Inr resp \<and> data resp = d # rest \<and> e = embedding d)))) \<and>
     (\<forall>t err. text' = Some t \<and> trim t \<noteq> [] \<and> new_client (client_fields_of p) = Some err \<longrightarrow>
        embedQuery p new_client srv text' w = (Inl (EmbeddingError (message err)), w))"
proof (intro conjI allI impI)
  show "fst (embedQuery p new_client srv text' w) = Inl TextEmpty \<longleftrightarrow>
        text' = None \<or> (\<exists>s. text' = Some s \<and> trim s = [])"
    unfolding valid_text_None_trim [symmetric]
    by (auto simp: embedQuery_def split: option.splits prod.splits sum.splits list.splits)
next
  assume "fst (embedQuery p new_client srv text' w) = Inl TextEmpty"
  then show "snd (embedQuery p new_client srv text' w) = w"
    by (auto simp: embedQuery_def split: option.splits prod.splits sum.splits list.splits)
next
  fix t
  assume a: "text' = Some t \<and> trim t \<noteq> [] \<and> new_client (client_fields_of p) = None"
  then have vt: "valid_text text' = Some t"
    by (auto simp: valid_text_def trim_def)
  let ?req = "\<lparr>model = p_model p, input = Single t, encoding_format = encodingFormat p\<rparr>"
  obtain outc s' where srv: "srv (server_state w) ?req = (outc, s')"
    by (cases "srv (server_state w) ?req")
  let ?w' = "w\<lparr>server_state := s', exchanges := exchanges w @ [(?req, outc)]\<rparr>"
  have ewr: "embeddingWithRetry srv (mk_request p (Single t)) w = (outc, ?w')"
    using srv by (simp add: embeddingWithRetry_def mk_request_def)
  have eq: "embedQuery p new_client srv text' w =
              (case outc of
                 Inl error \<Rightarrow> (Inl (EmbeddingError (message error)), ?w')
               | Inr resp \<Rightarrow>
                   (case data resp of
                      [] \<Rightarrow> (Inl (EmbeddingError (message (JsError ''TypeError''))), ?w')
                    | d # _ \<Rightarrow> (Inr (embedding d), ?w')))"
    using a vt ewr by (simp add: embedQuery_def)
  have "snd (embedQuery p new_client srv text' w) = ?w'"
    unfolding eq by (simp split: sum.splits list.splits)
  moreover have "\<forall>resp d rest. outc = Inr resp \<and> data resp = d # rest \<longrightarrow>
              fst (embedQuery p new_client srv text' w) = Inr (embedding d)"
    unfolding eq by simp
  moreover have "\<forall>e. fst (embedQuery p new_client srv text' w) = Inr e \<longrightarrow>
              (\<exists>resp d rest. outc = Inr resp \<and> data resp = d # rest \<and> e = embedding d)"
    unfolding eq by (auto split: sum.splits list.splits)
  ultimately show "\<exists>outc s'.
           srv (server_state w) ?req = (outc, s') \<and>
           snd (embedQuery p new_client srv text' w) =
             w\<lparr>server_state := s', exchanges := exchanges w @ [(?req, outc)]\<rparr> \<and>
           (\<forall>resp d rest. outc = Inr resp \<and> data resp = d # rest \<longrightarrow>
              fst (embedQuery p new_client srv text' w) = Inr (embedding d)) \<and>
           (\<forall>e. fst (embedQuery p new_client srv text' w) = Inr e \<longrightarrow>
              (\<exists>resp d rest. outc = Inr resp \<and> data resp = d # rest \<and> e = embedding d))"
    using srv by blast
next
  fix t err
  assume a: "text' = Some t \<and> trim t \<noteq> [] \<and> new_client (client_fields_of p) = Some err"
  then have "valid_text text' = Some t"
    by (auto simp: valid_text_def trim_def)
  with a show "embedQuery p new_client srv text' w = (Inl (EmbeddingError (message err)), w)"
    by (simp add: embedQuery_def)
qed

text \<open>
  The theorem at the text hello, with a client that is constructed and an endpoint
  that answers: one exchange, and the result is the embedding of its first entry. At
  a text of two spaces the call raises "Text content is empty".
\<close>

theorem embedQuery_single_request_witness:
  "embedQuery (example_provider keyed_credentials 10) constructed (echo_server emb_length)
     (Some ''hello'') fresh =
     (Inr (Vec [5]),
      fresh\<lparr>server_state := (),
            exchanges := [(\<lparr>model = ''text-embedding-model'', input = Single ''hello'',
                            encoding_format = Float\<rparr>,
                          Inr \<lparr>data = [\<lparr>embedding = Vec [5]\<rparr>]\<rparr>)]\<rparr>) \<and>
   fst (embedQuery (example_provider keyed_credentials 10) constructed
          (echo_server emb_length) (Some [CHR '' '', CHR '' '']) fresh) = Inl TextEmpty"
proof -
  let ?p = "example_provider keyed_credentials 10"
  let ?req = "\<lparr>model = ''text-embedding-model'', input = Single ''hello'',
               encoding_format = Float\<rparr>"
  let ?resp = "\<lparr>data = [\<lparr>embedding = Vec [5 :: nat]\<rparr>]\<rparr>"
  have tr: "trim ''hello'' \<noteq> []" "trim [CHR '' '', CHR '' ''] = []" by code_simp+
  have hyp: "Some ''hello'' = Some ''hello'' \<and> trim ''hello'' \<noteq> [] \<and>
             constructed (client_fields_of ?p) = None"
    using tr by (simp add: constructed_def)
  have srv: "echo_server emb_length (server_state fresh)
               \<lparr>model = p_model ?p, input = Single ''hello'',
                encoding_format = encodingFormat ?p\<rparr> = (Inr ?resp, ())"
    by (simp add: echo_server_def emb_length_def)
  note inst = embedQuery_single_request [of ?p constructed "echo_server emb_length" _ fresh]
  from inst [of "Some ''hello''", THEN conjunct2, THEN conjunct2, THEN conjunct1,
             rule_format, OF hyp]
  obtain outc s' where
    s: "echo_server emb_length (server_state fresh)
          \<lparr>model = p_model ?p, input = Single ''hello'',
           encoding_format = encodingFormat ?p\<rparr> = (outc, s')"
    and w': "snd (embedQuery ?p constructed (echo_server emb_length) (Some ''hello'') fresh) =
             fresh\<lparr>server_state := s',
                   exchanges := exchanges fresh @
                     [(\<lparr>model = p_model ?p, input = Single ''hello'',
                        encoding_format = encodingFormat ?p\<rparr>, outc)]\<rparr>"
    and res: "\<forall>resp d rest. outc = Inr resp \<and> data resp = d # rest \<longrightarrow>
                fst (embedQuery ?p constructed (echo_server emb_length) (Some ''hello'') fresh) =
                  Inr (embedding d)"
    by (elim exE conjE) (rule that)
  from s srv have outc: "outc = Inr ?resp" "s' = ()" by simp_all
  from res [rule_format, of ?resp "\<lparr>embedding = Vec [5]\<rparr>" "[]"] outc
  have r: "fst (embedQuery ?p constructed (echo_server emb_length) (Some ''hello'') fresh) =
             Inr (Vec [5])"
    by simp
  have first: "embedQuery ?p constructed (echo_server emb_length) (Some ''hello'') fresh =
     (Inr (Vec [5]), fresh\<lparr>server_state := (), exchanges := [(?req, Inr ?resp)]\<rparr>)"
  proof (rule prod_eqI)
    show "fst (embedQuery ?p constructed (echo_server emb_length) (Some ''hello'') fresh) =
          fst (Inr (Vec [5 :: nat]) :: provider_error + nat embedding,
               fresh\<lparr>server_state := (), exchanges := [(?req, Inr ?resp)]\<rparr>)"
      using r by simp
    show "snd (embedQuery ?p constructed (echo_server emb_length) (Some ''hello'') fresh) =
          snd (Inr (Vec [5 :: nat]) :: provider_error + nat embedding,
               fresh\<lparr>server_state := (), exchanges := [(?req, Inr ?resp)]\<rparr>)"
      using w' outc by (simp add: example_provider_def fresh_def)
  qed
  from inst [of "Some [CHR '' '', CHR '' '']", THEN conjunct1] tr(2)
  have "fst (embedQuery ?p constructed (echo_server emb_length)
               (Some [CHR '' '', CHR '' '']) fresh) = Inl TextEmpty"
    by simp
  with first show ?thesis by blast
qed

text \<open>
  The claim as stated fails when the constructor throws: with the empty API key of a
  local setup and a constructor that requires a key, the call on the text hello
  makes no request.
\<close>

theorem embedQuery_single_request_counterexample:
  "embedQuery (example_provider local_credentials 10) key_required (echo_server emb_length)
     (Some ''hello'') fresh =
     (Inl (EmbeddingError ''OpenAI or Azure OpenAI API key not found''), fresh)"
  by code_simp

subsection \<open>The connectivity check of supplyData\<close>

text \<open>
  C10. \<open>supplyData\<close> makes exactly one request, a GET to the normalised base URL
  followed by \<open>/models\<close>, whatever happens next. It returns the provider exactly when
  that request came back with a success status, and the provider holds the
  credentials, the normalised base URL and the three parameters. When the request
  throws, or comes back with another status, it raises an error whose message starts
  with "LM Studio connection failed: ".
\<close>

theorem supplyData_connection_check:
  "snd (supplyData creds m e b fetch) =
     [\<lparr>url = normalize_url (baseUrl creds) @ ''/models'', http_method = ''GET'',
       headers = fetch_headers creds\<rparr>] \<and>
   ((\<exists>prov. fst (supplyData creds m e b fetch) = Inr prov) \<longleftrightarrow>
      (\<exists>r. fetch (models_request (normalize_url (baseUrl creds)) creds) = Inr r \<and> ok r)) \<and>
   (\<forall>prov. fst (supplyData creds m e b fetch) = Inr prov \<longrightarrow>
      prov = \<lparr>p_credentials = creds, p_baseUrl = normalize_url (baseUrl creds), p_model = m,
              encodingFormat = e, batchSize = b\<rparr>) \<and>
   (\<forall>err. fetch (models_request (normalize_url (baseUrl creds)) creds) = Inl err \<longrightarrow>
      fst (supplyData creds m e b fetch) = Inl (ConnectionFailed (message err))) \<and>
   (\<forall>r. fetch (models_request (normalize_url (baseUrl creds)) creds) = Inr r \<and> \<not> ok r \<longrightarrow>
      fst (supplyData creds m e b fetch) =
        Inl (ConnectionFailed
              (''Cannot connect to LM Studio: '' @ show_nat (status r) @ '' '' @ statusText r))) \<and>
   (\<forall>err. fst (supplyData creds m e b fetch) = Inl err \<longrightarrow>
      (\<exists>msg. node_error_text err = ''LM Studio connection failed: '' @ msg))"
proof -
  let ?req = "models_request (normalize_url (baseUrl creds)) creds"
  show ?thesis
  proof (cases "fetch ?req")
    case (Inl err)
    then show ?thesis
      by (simp add: supplyData_def models_request_def Let_def)
  next
    case (Inr r)
    then show ?thesis
      by (cases "ok r") (simp_all add: supplyData_def models_request_def Let_def)
  qed
qed

text \<open>
  The theorem at three outcomes of the request: it throws, it comes back with status
  503, it comes back with status 200.
\<close>

theorem supplyData_connection_check_witness:
  "fst (supplyData local_credentials ''m'' Float 10 (\<lambda>req. Inl (JsError ''ECONNREFUSED''))) =
     Inl (ConnectionFailed ''ECONNREFUSED'') \<and>
   fst (supplyData local_credentials ''m'' Float 10
          (\<lambda>req. Inr \<lparr>ok = False, status = 503, statusText = ''Service Unavailable'',
                       json = Inl NonError\<rparr>)) =
     Inl (ConnectionFailed ''Cannot connect to LM Studio: 503 Service Unavailable'') \<and>
   (\<exists>prov. fst (supplyData local_credentials ''m'' Float 10
                  (\<lambda>req. Inr \<lparr>ok = True, status = 200, statusText = ''OK'',
                               json = Inr \<lparr>models_data = Some []\<rparr>\<rparr>)) = Inr prov \<and>
           batchSize prov = 10)"
proof -
  have digits: "show_nat 503 = ''503''" by code_simp
  note a = supplyData_connection_check
             [of local_credentials "''m''" Float 10 "\<lambda>req. Inl (JsError ''ECONNREFUSED'')"]
  note b = supplyData_connection_check
             [of local_credentials "''m''" Float 10
                 "\<lambda>req. Inr \<lparr>ok = False, status = 503, statusText = ''Service Unavailable'',
                              json = Inl NonError\<rparr>"]
  note c = supplyData_connection_check
             [of local_credentials "''m''" Float 10
                 "\<lambda>req. Inr \<lparr>ok = True, status = 200, statusText = ''OK'',
                              json = Inr \<lparr>models_data = Some []\<rparr>\<rparr>"]
  from a have 1: "fst (supplyData local_credentials ''m'' Float 10
                         (\<lambda>req. Inl (JsError ''ECONNREFUSED''))) =
                  Inl (ConnectionFailed ''ECONNREFUSED'')"
    by simp
  from b have 2: "fst (supplyData local_credentials ''m'' Float 10
          (\<lambda>req. Inr \<lparr>ok = False, status = 503, statusText = ''Service Unavailable'',
                       json = Inl NonError\<rparr>)) =
     Inl (ConnectionFailed ''Cannot connect to LM Studio: 503 Service Unavailable'')"
    by (simp add: digits)
  from c obtain prov where
    p: "fst (supplyData local_credentials ''m'' Float 10
                  (\<lambda>req. Inr \<lparr>ok = True, status = 200, statusText = ''OK'',
                               json = Inr \<lparr>models_data = Some []\<rparr>\<rparr>)) = Inr prov"
    by auto
  with c have "batchSize prov = 10" by simp
  with 1 2 p show ?thesis by blast
qed

subsection \<open>The Authorization header\<close>

lemma fetch_headers_authorization:
  "map_of (fetch_headers creds) ''Authorization'' =
     (case apiKey creds of
        None \<Rightarrow> None
      | Some k \<Rightarrow> if k \<noteq> [] then Some (''Bearer '' @ k) else None)"
  by (simp add: fetch_headers_def split: option.splits)

text \<open>
  Every request the node makes with fetch (the models listing of \<open>getModels\<close>, in both
  versions of the node, and the connectivity check of \<open>supplyData\<close>) carries the header
  Authorization exactly when the credential has a non-empty API key, and its value is
  then \<open>Bearer\<close>, a space and the key; with an absent or empty key the request has no
  such header.
\<close>

theorem fetch_requests_authorization:
  "\<forall>req \<in> set (snd (getModels creds fetch)) \<union> set (snd (getModels_plain creds fetch)) \<union>
            set (snd (supplyData creds m e b fetch)).
     ((\<exists>v. (''Authorization'', v) \<in> set (headers req)) \<longleftrightarrow>
        (\<exists>k. apiKey creds = Some k \<and> k \<noteq> [])) \<and>
     (\<forall>k. apiKey creds = Some k \<and> k \<noteq> [] \<longrightarrow>
        map_of (headers req) ''Authorization'' = Some (''Bearer '' @ k)) \<and>
     (apiKey creds = None \<or> apiKey creds = Some [] \<longrightarrow>
        map_of (headers req) ''Authorization'' = None)"
proof -
  have hs: "headers req = fetch_headers creds"
    if "req \<in> set (snd (getModels creds fetch)) \<union> set (snd (getModels_plain creds fetch)) \<union>
              set (snd (supplyData creds m e b fetch))" for req
    using that
    by (auto simp: getModels_def getModels_plain_def supplyData_def models_request_def Let_def
             split: sum.splits if_splits)
  have "(\<exists>v. (''Authorization'', v) \<in> set (fetch_headers creds)) \<longleftrightarrow>
        (\<exists>k. apiKey creds = Some k \<and> k \<noteq> [])"
    by (cases "apiKey creds") (auto simp: fetch_headers_def)
  moreover have "\<forall>k. apiKey creds = Some k \<and> k \<noteq> [] \<longrightarrow>
        map_of (fetch_headers creds) ''Authorization'' = Some (''Bearer '' @ k)"
    by (simp add: fetch_headers_authorization)
  moreover have "apiKey creds = None \<or> apiKey creds = Some [] \<longrightarrow>
        map_of (fetch_headers creds) ''Authorization'' = None"
    by (auto simp: fetch_headers_authorization)
  ultimately show ?thesis using hs by simp
qed

text \<open>
  The theorem at a credential with the key \<open>secret\<close> and at one with an empty key, for
  the request of \<open>supplyData\<close>.
\<close>

theorem fetch_requests_authorization_witness:
  "map (\<lambda>req. map_of (headers req) ''Authorization'')
     (snd (supplyData keyed_credentials ''m'' Float 10 (\<lambda>req. Inl NonError))) =
     [Some ''Bearer secret''] \<and>
   map (\<lambda>req. map_of (headers req) ''Authorization'')
     (snd (supplyData local_credentials ''m'' Float 10 (\<lambda>req. Inl NonError))) = [None]"
proof -
  let ?f = "\<lambda>req :: http_request. Inl NonError :: thrown + http_response"
  have k: "snd (supplyData keyed_credentials ''m'' Float 10 ?f) =
             [models_request (normalize_url (baseUrl keyed_credentials)) keyed_credentials]"
    and l: "snd (supplyData local_credentials ''m'' Float 10 ?f) =
             [models_request (normalize_url (baseUrl local_credentials)) local_credentials]"
    by (simp_all add: supplyData_def Let_def)
  from fetch_requests_authorization [of keyed_credentials ?f "''m''" Float 10,
         THEN bspec,
         of "models_request (normalize_url (baseUrl keyed_credentials)) keyed_credentials"]
  have 1: "map_of (headers (models_request (normalize_url (baseUrl keyed_credentials))
                              keyed_credentials)) ''Authorization'' = Some ''Bearer secret''"
    unfolding k by (simp add: keyed_credentials_def)
  from fetch_requests_authorization [of local_credentials ?f "''m''" Float 10,
         THEN bspec,
         of "models_request (normalize_url (baseUrl local_credentials)) local_credentials"]
  have 2: "map_of (headers (models_request (normalize_url (baseUrl local_credentials))
                              local_credentials)) ''Authorization'' = None"
    unfolding l by (simp add: local_credentials_def)
  from 1 2 show ?thesis unfolding k l by simp
qed

text \<open>
  C8. The header Authorization should be sent exactly when an API key is configured.
  The two fetch calls do so. The request of the credential test, a GET to the same
  \<open>/models\<close> path that the host builds from \<open>authenticate\<close>, does not: at the
  credential with the empty key that it has by default, the fetch headers have no
  Authorization entry, and the request of the credential test carries the header
  with the value \<open>Bearer\<close> and a space.
\<close>

theorem credential_test_sends_authorization_without_key:
  "apiKey local_credentials = Some [] \<and>
   map_of (fetch_headers local_credentials) ''Authorization'' = None \<and>
   url (credential_test_request local_credentials) =
     url (models_request (baseUrl local_credentials) local_credentials) \<and>
   map_of (headers (credential_test_request local_credentials)) ''Authorization'' =
     Some ''Bearer ''"
  by (simp add: credential_test_request_def authenticate_headers_def authenticate_def
                local_credentials_def fetch_headers_def models_request_def)

subsection \<open>Model listing\<close>

lemma models_of_response_ok:
  assumes "ok response" and "json response = Inr body" and "models_data body = Some ms"
  shows "models_of_response (Inr response) =
         Inr (map (\<lambda>m. \<lparr>opt_name = entry_id m, opt_value = entry_id m\<rparr>) ms)"
  using assms by (simp add: models_of_response_def)

text \<open>
  C7. When the models request succeeds with a JSON body whose \<open>data\<close> is the list \<open>ms\<close>,
  \<open>getModels\<close> (in both versions of the node) returns exactly one option per entry of
  \<open>ms\<close>, name and value both the entry's id, in the order of \<open>ms\<close>: same length, the
  k-th option built from the k-th entry, nothing sorted, dropped or merged. For the
  body with ids a and b the result is the options a and b in that order.
\<close>

theorem getModels_in_server_order:
  assumes "ok response" and "json response = Inr body" and "models_data body = Some ms"
  shows "(fetch (models_request (normalize_url (baseUrl creds)) creds) = Inr response \<longrightarrow>
            fst (getModels creds fetch) =
              Inr (map (\<lambda>m. \<lparr>opt_name = entry_id m, opt_value = entry_id m\<rparr>) ms) \<and>
            (\<exists>opts. fst (getModels creds fetch) = Inr opts \<and> length opts = length ms \<and>
               (\<forall>k < length ms. opts ! k =
                  \<lparr>opt_name = entry_id (ms ! k), opt_value = entry_id (ms ! k)\<rparr>))) \<and>
         (fetch (models_request (baseUrl creds) creds) = Inr response \<longrightarrow>
            fst (getModels_plain creds fetch) =
              Inr (map (\<lambda>m. \<lparr>opt_name = entry_id m, opt_value = entry_id m\<rparr>) ms))"
  using assms by (simp add: getModels_def getModels_plain_def models_of_response_ok)

theorem getModels_in_server_order_witness:
  "fst (getModels \<lparr>baseUrl = ''http://localhost:1234/v1'', apiKey = Some []\<rparr>
         (\<lambda>_. Inr \<lparr>ok = True, status = 200, statusText = ''OK'',
                    json = Inr \<lparr>models_data = Some [\<lparr>entry_id = ''a''\<rparr>, \<lparr>entry_id = ''b''\<rparr>]\<rparr>\<rparr>)) =
     Inr [\<lparr>opt_name = ''a'', opt_value = ''a''\<rparr>, \<lparr>opt_name = ''b'', opt_value = ''b''\<rparr>]"
  using getModels_in_server_order
    [of "\<lparr>ok = True, status = 200, statusText = ''OK'',
          json = Inr \<lparr>models_data = Some [\<lparr>entry_id = ''a''\<rparr>, \<lparr>entry_id = ''b''\<rparr>]\<rparr>\<rparr>"
        "\<lparr>models_data = Some [\<lparr>entry_id = ''a''\<rparr>, \<lparr>entry_id = ''b''\<rparr>]\<rparr>"
        "[\<lparr>entry_id = ''a''\<rparr>, \<lparr>entry_id = ''b''\<rparr>]"
        "\<lambda>_. Inr \<lparr>ok = True, status = 200, statusText = ''OK'',
                   json = Inr \<lparr>models_data = Some [\<lparr>entry_id = ''a''\<rparr>, \<lparr>entry_id = ''b''\<rparr>]\<rparr>\<rparr>"
        "\<lparr>baseUrl = ''http://localhost:1234/v1'', apiKey = Some []\<rparr>"]
  by simp

end
